theory Spec2Isabelle
  imports Complex_Main "HOL-Library.Sublist"
begin

section \<open>JavaScript numbers\<close>

text \<open>
  The numbers of the mouse motion analyzer are IEEE 754 binary64 values, and every
  arithmetic operation on them returns the double nearest to its exact result, a tie going
  to the even significand. A finite double is kept as the rational it denotes. The sign of a
  zero is not kept: no operation of the analyzer tells the two zeros apart.
\<close>

datatype double = Finite rat | PosInf | NegInf | NaN

definition pow2 :: "int \<Rightarrow> rat" where
  "pow2 k = (if k \<ge> 0 then 2 ^ nat k else 1 / 2 ^ nat (- k))"

text \<open>The binary exponent of a positive rational \<open>a\<close>: the \<open>k\<close> with \<open>2 ^ k \<le> a < 2 ^ (k + 1)\<close>.\<close>

function halvings :: "rat \<Rightarrow> int" where
  "halvings a = (if a < 2 then 0 else 1 + halvings (a / 2))"
  by pat_completeness auto
termination
proof (relation "measure (\<lambda>a. nat \<lfloor>a\<rfloor>)")
  show "wf (measure (\<lambda>a :: rat. nat \<lfloor>a\<rfloor>))" by simp
next
  fix a :: rat
  assume "\<not> a < 2"
  then have "a / 2 \<le> a - 1" and "1 \<le> \<lfloor>a\<rfloor>" by (simp_all add: le_floor_iff)
  then have "\<lfloor>a / 2\<rfloor> \<le> \<lfloor>a - 1\<rfloor>" by (intro floor_mono)
  with \<open>1 \<le> \<lfloor>a\<rfloor>\<close> show "(a / 2, a) \<in> measure (\<lambda>a. nat \<lfloor>a\<rfloor>)" by simp
qed

function doublings :: "rat \<Rightarrow> int" where
  "doublings a = (if a \<le> 0 \<or> 1 \<le> a then 0 else 1 + doublings (2 * a))"
  by pat_completeness auto
termination
proof (relation "measure (\<lambda>a. nat \<lceil>1 / a\<rceil>)")
  show "wf (measure (\<lambda>a :: rat. nat \<lceil>1 / a\<rceil>))" by simp
next
  fix a :: rat
  assume "\<not> (a \<le> 0 \<or> 1 \<le> a)"
  then have a: "0 < a" "a < 1" by simp_all
  then have "1 < 1 / a" by simp
  then have two: "2 \<le> \<lceil>1 / a\<rceil>" by (simp add: le_ceiling_iff)
  have "1 / (2 * a) = (1 / a) / 2" by simp
  also have "\<dots> \<le> of_int \<lceil>1 / a\<rceil> / 2" by (simp add: divide_right_mono)
  also have "\<dots> \<le> of_int (\<lceil>1 / a\<rceil> - 1)" using two by simp
  finally have "\<lceil>1 / (2 * a)\<rceil> \<le> \<lceil>1 / a\<rceil> - 1" by (rule ceiling_le)
  with two a show "(2 * a, a) \<in> measure (\<lambda>a. nat \<lceil>1 / a\<rceil>)" by simp
qed

declare halvings.simps [simp del] doublings.simps [simp del]

definition floor_log2 :: "rat \<Rightarrow> int" where
  "floor_log2 a = (if 1 \<le> a then halvings a else - doublings a)"

definition round_half_even :: "rat \<Rightarrow> int" where
  "round_half_even q =
     (let f = \<lfloor>q\<rfloor>; r = q - of_int f
      in if r < 1 / 2 then f else if r > 1 / 2 then f + 1 else if even f then f else f + 1)"

text \<open>
  The double nearest to a rational: a significand of 53 bits at the exponent of the
  rational, or at the least exponent \<open>- 1022\<close> for a subnormal result, and an infinity when
  the rounded value reaches \<open>2 ^ 1024\<close>.
\<close>

definition to_double :: "rat \<Rightarrow> double" where
  "to_double x =
     (if x = 0 then Finite 0
      else (let a = \<bar>x\<bar>;
                e = max (floor_log2 a) (- 1022);
                ulp = pow2 (e - 52);
                m = of_int (round_half_even (a / ulp)) * ulp
            in if m \<ge> pow2 1024 then (if x > 0 then PosInf else NegInf)
               else Finite (if x > 0 then m else - m)))"

fun d_neg :: "double \<Rightarrow> double" where
  "d_neg (Finite a) = Finite (- a)"
| "d_neg PosInf = NegInf"
| "d_neg NegInf = PosInf"
| "d_neg NaN = NaN"

fun d_add :: "double \<Rightarrow> double \<Rightarrow> double" where
  "d_add (Finite a) (Finite b) = to_double (a + b)"
| "d_add NaN _ = NaN"
| "d_add _ NaN = NaN"
| "d_add PosInf NegInf = NaN"
| "d_add NegInf PosInf = NaN"
| "d_add (Finite a) b = b"
| "d_add a _ = a"

definition d_sub :: "double \<Rightarrow> double \<Rightarrow> double" where
  "d_sub a b = d_add a (d_neg b)"

fun d_mul :: "double \<Rightarrow> double \<Rightarrow> double" where
  "d_mul (Finite a) (Finite b) = to_double (a * b)"
| "d_mul NaN _ = NaN"
| "d_mul _ NaN = NaN"
| "d_mul (Finite a) b = (if a = 0 then NaN else if 0 < a then b else d_neg b)"
| "d_mul a (Finite b) = (if b = 0 then NaN else if 0 < b then a else d_neg a)"
| "d_mul a b = (if a = b then PosInf else NegInf)"

text \<open>
  \<open>Math.sqrt\<close> is correctly rounded. For a positive \<open>x\<close> with \<open>4 ^ e \<le> x < 4 ^ (e + 1)\<close>
  the root lies in \<open>[2 ^ e, 2 ^ (e + 1))\<close>, where the doubles are the multiples of
  \<open>2 ^ (e - 52)\<close>; \<open>sqrt_round\<close> takes the integer square root \<open>r\<close> of \<open>x\<close> scaled by
  \<open>4 ^ (52 - e)\<close> and compares the scaled \<open>x\<close> with the square of \<open>r + 1 / 2\<close> to choose
  between \<open>r\<close> and \<open>r + 1\<close>.
\<close>

function isqrt :: "int \<Rightarrow> int" where
  "isqrt n =
     (if n < 4 then (if n \<le> 0 then 0 else 1)
      else (let r = 2 * isqrt (n div 4) in if (r + 1) * (r + 1) \<le> n then r + 1 else r))"
  by pat_completeness auto
termination
  by (relation "measure nat") auto

declare isqrt.simps [simp del]

definition sqrt_round :: "rat \<Rightarrow> rat" where
  "sqrt_round x =
     (let e = floor_log2 x div 2;
          X = x / pow2 (2 * (e - 52));
          r = isqrt \<lfloor>X\<rfloor>;
          h = (of_int r + 1 / 2) * (of_int r + 1 / 2);
          n = (if X < h then r else if X > h then r + 1 else if even r then r else r + 1)
      in of_int n * pow2 (e - 52))"

fun d_sqrt :: "double \<Rightarrow> double" where
  "d_sqrt (Finite a) = (if a < 0 then NaN else if a = 0 then Finite 0 else Finite (sqrt_round a))"
| "d_sqrt PosInf = PosInf"
| "d_sqrt _ = NaN"

fun d_greater :: "double \<Rightarrow> double \<Rightarrow> bool" where
  "d_greater (Finite a) (Finite b) \<longleftrightarrow> b < a"
| "d_greater NaN _ \<longleftrightarrow> False"
| "d_greater _ NaN \<longleftrightarrow> False"
| "d_greater PosInf b \<longleftrightarrow> b \<noteq> PosInf"
| "d_greater a NegInf \<longleftrightarrow> a \<noteq> NegInf"
| "d_greater _ _ \<longleftrightarrow> False"

text \<open>\<open>Math.round\<close>: the nearest integer, a half going up.\<close>

fun math_round :: "double \<Rightarrow> double" where
  "math_round (Finite a) = Finite (of_int \<lfloor>a + 1 / 2\<rfloor>)"
| "math_round a = a"

declare math_round.simps [simp del]

text \<open>The number that an integer coordinate is.\<close>

definition js_number :: "int \<Rightarrow> double" where
  "js_number k = to_double (of_int k)"

section \<open>The tracker of public/tracker.js: data model\<close>

text \<open>
  The tracker is one closure whose variables are mutated by event handlers. The variables
  become the fields of \<open>tracker_state\<close>; a handler takes the state and returns the new one.
  What \<open>sendEvent\<close> hands to the transport is appended to the field \<open>sent\<close>, so that
  the emissions of a handler can be read off the state it returns.

  Times are the integers of \<open>Date.now()\<close> (milliseconds), passed to each handler as an
  argument at every place where the source reads the clock. Pointer coordinates are
  integers (CSS pixels); the mouse motion analyzer computes with them as doubles.
\<close>

record form_info =
  formId :: "string option"
  formName :: "string option"
  formAction :: "string option"
  totalFields :: nat
  filledFields :: nat

text \<open>
  The payload of each event type. Of an emitted object the model keeps the fields that the
  state machine and the detectors determine; \<open>elementPath\<close>, \<open>elementText\<close>, the
  labels and \<open>completionRate\<close> (a rounded floating-point quotient) are strings and numbers
  read off the page that no detector looks at, and are left out.
\<close>

datatype event_data =
    ScrollMilestone int int
      \<comment> \<open>depth, maxDepth\<close>
  | RageClick nat int int int string nat
      \<comment> \<open>clickCount, timeWindow, x, y, element, totalRageClicks\<close>
  | DeadClick string int int nat
      \<comment> \<open>element, x, y, totalDeadClicks\<close>
  | Click string string int int bool bool
      \<comment> \<open>elementType, elementSelector, x, y, isRageClick, isDeadClick\<close>
  | MouseThrash double nat int nat
      \<comment> \<open>totalDistance, directionChanges, duration, movementCount\<close>
  | FormStart form_info
  | FormFieldSkip form_info string string string
      \<comment> \<open>form info, skippedField, skippedFieldType, movedToField\<close>
  | FormAbandonment form_info string "string list" "string option" int
      \<comment> \<open>form info, reason, fieldsInteracted, lastFieldInteracted, timeInForm\<close>
  | FormSubmit form_info "(nat \<times> int) option"
      \<comment> \<open>form info and, for a tracked form, fieldsInteracted and timeToComplete\<close>

fun eventType :: "event_data \<Rightarrow> string" where
  "eventType (ScrollMilestone _ _) = ''scroll_milestone''"
| "eventType (RageClick _ _ _ _ _ _) = ''rage_click''"
| "eventType (DeadClick _ _ _ _) = ''dead_click''"
| "eventType (Click _ _ _ _ _ _) = ''click''"
| "eventType (MouseThrash _ _ _ _) = ''mouse_thrash''"
| "eventType (FormStart _) = ''form_start''"
| "eventType (FormFieldSkip _ _ _ _) = ''form_field_skip''"
| "eventType (FormAbandonment _ _ _ _ _) = ''form_abandonment''"
| "eventType (FormSubmit _ _) = ''form_submit''"

record envelope =
  eventData :: event_data
  interactionIndex :: nat

record click_sample =
  c_time :: int
  c_x :: int
  c_y :: int
  c_element :: string

record mouse_sample =
  m_time :: int
  m_x :: int
  m_y :: int

record last_field =
  lf_name :: string
  lf_type :: string

record form_data =
  startTime :: int
  fieldsInteracted :: "string list"
  lastField :: "last_field option"
  submitted :: bool

text \<open>
  \<open>activeForms\<close> is a JavaScript \<open>Map\<close> keyed by the form element. A form element is
  identified by a number (its identity), and the map is an association list in insertion
  order with at most one entry per key.
\<close>

record tracker_state =
  maxScrollDepth :: int
  clickCount :: nat
  lastScrollDepthSent :: int
  interactionCount :: nat
  recentClicks :: "click_sample list"
  mouseMovements :: "mouse_sample list"
  lastMousePosition :: "int \<times> int"
  deadClickCount :: nat
  rageClickCount :: nat
  activeForms :: "(nat \<times> form_data) list"
  sent :: "envelope list"

definition initial_state :: tracker_state where
  "initial_state =
     \<lparr> maxScrollDepth = 0, clickCount = 0, lastScrollDepthSent = 0, interactionCount = 0,
       recentClicks = [], mouseMovements = [], lastMousePosition = (0, 0),
       deadClickCount = 0, rageClickCount = 0, activeForms = [], sent = [] \<rparr>"

definition sendEvent :: "tracker_state \<Rightarrow> event_data \<Rightarrow> tracker_state" where
  "sendEvent s d =
     s\<lparr> interactionCount := interactionCount s + 1,
        sent := sent s @ [\<lparr> eventData = d, interactionIndex = interactionCount s + 1 \<rparr>] \<rparr>"

definition emitted :: "tracker_state \<Rightarrow> event_data list" where
  "emitted s = map eventData (sent s)"

definition emitted_of :: "string \<Rightarrow> tracker_state \<Rightarrow> event_data list" where
  "emitted_of ty s = filter (\<lambda>d. eventType d = ty) (emitted s)"

section \<open>Identity manager\<close>

text \<open>
  The item \<open>bi_session\<close> of the tab's \<open>sessionStorage\<close>. \<open>None\<close> is an absent (or
  empty) item; \<open>Unparsable\<close> is an item on which \<open>JSON.parse\<close> or the property access
  throws, or whose \<open>lastActivity\<close> does not convert to a number, so that the difference
  is \<open>NaN\<close> and the comparison false; \<open>SessionData\<close> is a stored \<open>{id, lastActivity}\<close>
  with the number its \<open>lastActivity\<close> converts to.

  \<open>getOrCreateSessionId\<close> reads the clock at the comparison (\<open>now_check\<close>) and when it
  writes (\<open>now_write\<close>); \<open>fresh\<close> is what \<open>generateId()\<close> returns if it is called. The
  result is the id returned and the item stored afterwards.
\<close>

datatype stored_session = Unparsable | SessionData string int

definition getOrCreateSessionId ::
  "stored_session option \<Rightarrow> int \<Rightarrow> int \<Rightarrow> string \<Rightarrow> string \<times> stored_session option" where
  "getOrCreateSessionId stored now_check now_write fresh =
     (case stored of
        Some (SessionData sid la) \<Rightarrow>
          if now_check - la < 30 * 60 * 1000
          then (sid, Some (SessionData sid now_write))
          else (fresh, Some (SessionData fresh now_write))
      | _ \<Rightarrow> (fresh, Some (SessionData fresh now_write)))"

section \<open>Scroll tracker\<close>

text \<open>
  \<open>trackScroll\<close> takes the value of \<open>getScrollDepth()\<close> as its argument. The loop over
  the milestones stops at the first milestone it emits (the \<open>break\<close>).
\<close>

definition milestones :: "int list" where
  "milestones = [25, 50, 75, 90, 100]"

fun milestone_loop :: "int list \<Rightarrow> tracker_state \<Rightarrow> tracker_state" where
  "milestone_loop [] s = s"
| "milestone_loop (milestone # rest) s =
     (if maxScrollDepth s \<ge> milestone \<and> lastScrollDepthSent s < milestone
      then sendEvent (s\<lparr> lastScrollDepthSent := milestone \<rparr>)
             (ScrollMilestone milestone (maxScrollDepth s))
      else milestone_loop rest s)"

definition trackScroll :: "tracker_state \<Rightarrow> int \<Rightarrow> tracker_state" where
  "trackScroll s depth =
     milestone_loop milestones
       (if depth > maxScrollDepth s then s\<lparr> maxScrollDepth := depth \<rparr> else s)"

text \<open>A sequence of scroll events, given by the depth read at each.\<close>

fun scroll_events :: "tracker_state \<Rightarrow> int list \<Rightarrow> tracker_state" where
  "scroll_events s [] = s"
| "scroll_events s (depth # rest) = scroll_events (trackScroll s depth) rest"

fun milestone_depth :: "event_data \<Rightarrow> int option" where
  "milestone_depth (ScrollMilestone d _) = Some d"
| "milestone_depth _ = None"

definition milestones_sent :: "tracker_state \<Rightarrow> int list" where
  "milestones_sent s = List.map_filter milestone_depth (emitted s)"

section \<open>Elements and click events\<close>

text \<open>
  An element is modelled by what the tracker reads off it: \<open>tag\<close> is
  \<open>tagName.toLowerCase()\<close>, \<open>classes\<close> the tokens of its class attribute,
  \<open>has_onclick\<close> is \<open>element.onclick || element.getAttribute('onclick')\<close>,
  \<open>style_cursor\<close> is \<open>element.style.cursor\<close> and \<open>computed_cursor\<close> is
  \<open>window.getComputedStyle(element).cursor\<close>. Elements are those of HTML, SVG and
  MathML, which have \<open>style\<close>, \<open>classList\<close> and \<open>closest\<close>.

  \<open>innerText\<close> is the element's \<open>innerText\<close>, empty when it is \<open>undefined\<close> (as on SVG
  elements). \<open>elem_value\<close> and \<open>elem_type\<close> are its properties \<open>value\<close> and \<open>type\<close>,
  which are not strings on every element: \<open>value\<close> is a number on \<open>progress\<close>,
  \<open>meter\<close> and \<open>li\<close>, and \<open>type\<close> is an object on the filter primitives of SVG. A
  property is \<open>Undefined\<close> (or \<open>null\<close>), a string, or another value, of which the
  model keeps whether it is truthy; such a value has no \<open>toLowerCase\<close>, and \<open>slice\<close>
  followed by \<open>trim\<close> fails on it.

  The target of a click is an element together with its ancestors (nearest first), or a
  node that is not an element (the document, which a dispatched click can have as its
  target): such a node has no \<open>tagName\<close>, \<open>style\<close> or \<open>classList\<close>, and reading
  a property of these \<open>undefined\<close> values throws a \<open>TypeError\<close>.
\<close>

datatype js_value = Undefined | StringValue string | OtherValue bool

record element =
  tag :: string
  elemId :: string
  classes :: "string list"
  role :: "string option"
  has_onclick :: bool
  style_cursor :: string
  computed_cursor :: string
  innerText :: string
  elem_value :: js_value
  elem_type :: js_value

datatype node = ElementNode element "element list" | DocumentNode

datatype error = TypeError

record click_event =
  target :: node
  clientX :: int
  clientY :: int

fun join :: "string \<Rightarrow> string list \<Rightarrow> string" where
  "join sep [] = []"
| "join sep [x] = x"
| "join sep (x # y # rest) = x @ sep @ join sep (y # rest)"

definition selector_of :: "element \<Rightarrow> string" where
  "selector_of e =
     tag e @
     (if elemId e \<noteq> [] then ''#'' @ elemId e
      else (let cls = join ''.'' (take 2 (classes e))
            in if cls \<noteq> [] then ''.'' @ cls else []))"

fun getElementSelector :: "node \<Rightarrow> error + string" where
  "getElementSelector DocumentNode = Inl TypeError"
| "getElementSelector (ElementNode e _) = Inr (selector_of e)"

definition clickableTags :: "string list" where
  "clickableTags = [''a'', ''button'', ''input'', ''select'', ''textarea'', ''label'']"

definition isClickableElement :: "element \<Rightarrow> bool" where
  "isClickableElement e \<longleftrightarrow>
     tag e \<in> set clickableTags \<or>
     role e = Some ''button'' \<or>
     has_onclick e \<or>
     style_cursor e = ''pointer'' \<or>
     computed_cursor e = ''pointer''"

text \<open>
  \<open>closest\<close> for a selector given as a predicate: the element itself or its nearest
  ancestor that matches. \<open>matches_interactive\<close> is the selector
  \<open>a, button, input, select, textarea, [role="button"]\<close> of \<open>detectDeadClick\<close>.
\<close>

definition closest :: "(element \<Rightarrow> bool) \<Rightarrow> element \<Rightarrow> element list \<Rightarrow> element option" where
  "closest sel e ancestors = find sel (e # ancestors)"

definition matches_interactive :: "element \<Rightarrow> bool" where
  "matches_interactive e \<longleftrightarrow>
     tag e \<in> set [''a'', ''button'', ''input'', ''select'', ''textarea''] \<or>
     role e = Some ''button''"

text \<open>
  The value of \<open>target.innerText || target.value || ''\<close>, and the call of a string
  method (\<open>toLowerCase\<close>, or \<open>slice\<close> and then \<open>trim\<close>) on a value: it returns on a
  string and throws a \<open>TypeError\<close> on anything else.
\<close>

definition text_or_value :: "element \<Rightarrow> js_value" where
  "text_or_value e =
     (if innerText e \<noteq> [] then StringValue (innerText e)
      else (case elem_value e of
              StringValue v \<Rightarrow> StringValue v
            | OtherValue truthy \<Rightarrow> if truthy then OtherValue True else StringValue []
            | Undefined \<Rightarrow> StringValue []))"

fun string_method :: "js_value \<Rightarrow> error + string" where
  "string_method (StringValue v) = Inr v"
| "string_method (OtherValue _) = Inl TypeError"
| "string_method Undefined = Inl TypeError"

text \<open>
  \<open>target.type?.toLowerCase()\<close>: \<open>undefined\<close> when there is no \<open>type\<close>, the call on a
  string, and a \<open>TypeError\<close> on a \<open>type\<close> that is not a string.
\<close>

fun optional_string_method :: "js_value \<Rightarrow> error + string option" where
  "optional_string_method Undefined = Inr None"
| "optional_string_method (StringValue v) = Inr (Some v)"
| "optional_string_method (OtherValue _) = Inl TypeError"

text \<open>
  The selector \<open>a, button, [role="button"], input[type="submit"], input[type="button"]\<close>
  of \<open>trackClick\<close>; on an \<open>input\<close> the \<open>type\<close> attribute it tests is the \<open>type\<close>
  property.
\<close>

definition matches_clickable_parent :: "element \<Rightarrow> bool" where
  "matches_clickable_parent e \<longleftrightarrow>
     tag e \<in> set [''a'', ''button''] \<or>
     role e = Some ''button'' \<or>
     (tag e = ''input'' \<and> elem_type e \<in> set [StringValue ''submit'', StringValue ''button''])"

section \<open>Click pattern analyzer\<close>

definition allInSameArea :: "click_sample list \<Rightarrow> bool" where
  "allInSameArea cs =
     (let firstClick = cs ! 0
      in list_all (\<lambda>c. \<bar>c_x c - c_x firstClick\<bar> < 50 \<and> \<bar>c_y c - c_y firstClick\<bar> < 50) cs)"

text \<open>
  \<open>detectRageClick\<close>: the sample is built before it is pushed, so a throw of
  \<open>getElementSelector\<close> leaves the buffer as it was. The result is the returned boolean,
  or the exception, and the state.
\<close>

definition detectRageClick ::
  "tracker_state \<Rightarrow> int \<Rightarrow> click_event \<Rightarrow> (error + bool) \<times> tracker_state" where
  "detectRageClick s now event =
     (case getElementSelector (target event) of
        Inl e \<Rightarrow> (Inl e, s)
      | Inr sel \<Rightarrow>
          (let pushed = recentClicks s @
                 [\<lparr> c_time = now, c_x = clientX event, c_y = clientY event, c_element = sel \<rparr>];
               kept = filter (\<lambda>c. now - c_time c < 500) pushed;
               s1 = s\<lparr> recentClicks := kept \<rparr>
           in if length kept \<ge> 3 \<and> allInSameArea kept
              then (Inr True,
                    (sendEvent (s1\<lparr> rageClickCount := rageClickCount s1 + 1 \<rparr>)
                       (RageClick (length kept) (now - c_time (kept ! 0))
                          (clientX event) (clientY event) sel (rageClickCount s1 + 1)))
                    \<lparr> recentClicks := [] \<rparr>)
              else (Inr False, s1)))"

definition looksClickable :: "element \<Rightarrow> bool" where
  "looksClickable e \<longleftrightarrow>
     style_cursor e = ''pointer'' \<or>
     computed_cursor e = ''pointer'' \<or>
     tag e = ''img'' \<or>
     ''btn'' \<in> set (classes e) \<or>
     ''button'' \<in> set (classes e) \<or>
     ''link'' \<in> set (classes e) \<or>
     ''clickable'' \<in> set (classes e)"

definition isActuallyClickable :: "element \<Rightarrow> element list \<Rightarrow> bool" where
  "isActuallyClickable e ancestors \<longleftrightarrow>
     isClickableElement e \<or> closest matches_interactive e ancestors \<noteq> None"

definition detectDeadClick ::
  "tracker_state \<Rightarrow> click_event \<Rightarrow> (error + bool) \<times> tracker_state" where
  "detectDeadClick s event =
     (case target event of
        DocumentNode \<Rightarrow> (Inl TypeError, s)
      | ElementNode e ancestors \<Rightarrow>
          if looksClickable e \<and> \<not> isActuallyClickable e ancestors
          then (Inr True,
                sendEvent (s\<lparr> deadClickCount := deadClickCount s + 1 \<rparr>)
                  (DeadClick (selector_of e) (clientX event) (clientY event)
                     (deadClickCount s + 1)))
          else (Inr False, s))"

text \<open>
  \<open>detectFormCancelClick\<close> decides from the target's text, type, classes and attributes
  whether it is a cancel control of a tracked form, and if so starts a timer of 100 ms
  (\<open>cancelClickTimeout\<close> below is its callback). In the handler itself it changes no
  variable of the tracker and emits nothing. It can throw: \<open>buttonText\<close> is
  \<open>(target.innerText || target.value || '').toLowerCase()\<close> and \<open>buttonType\<close> is
  \<open>target.type?.toLowerCase()\<close>; and a node that is not an element has no \<open>classList\<close>.
\<close>

definition detectFormCancelClick ::
  "tracker_state \<Rightarrow> click_event \<Rightarrow> (error + unit) \<times> tracker_state" where
  "detectFormCancelClick s event =
     (case target event of
        DocumentNode \<Rightarrow> (Inl TypeError, s)
      | ElementNode e ancestors \<Rightarrow>
          (case string_method (text_or_value e) of
             Inl err \<Rightarrow> (Inl err, s)
           | Inr buttonText \<Rightarrow>
               (case optional_string_method (elem_type e) of
                  Inl err \<Rightarrow> (Inl err, s)
                | Inr buttonType \<Rightarrow> (Inr (), s))))"

text \<open>
  The object \<open>trackClick\<close> sends: \<open>elementText\<close> is
  \<open>(target.innerText || target.value || '').slice(0, 100).trim()\<close>, and with a
  \<open>clickableParent\<close> the same expression on it gives \<open>clickableText\<close>; both can throw.
\<close>

definition clickData :: "click_event \<Rightarrow> bool \<Rightarrow> bool \<Rightarrow> error + event_data" where
  "clickData event isRageClick isDeadClick =
     (case target event of
        DocumentNode \<Rightarrow> Inl TypeError
      | ElementNode e ancestors \<Rightarrow>
          (case string_method (text_or_value e) of
             Inl err \<Rightarrow> Inl err
           | Inr elementText \<Rightarrow>
               (case closest matches_clickable_parent e ancestors of
                  None \<Rightarrow>
                    Inr (Click (tag e) (selector_of e) (clientX event) (clientY event)
                           isRageClick isDeadClick)
                | Some clickableParent \<Rightarrow>
                    (case string_method (text_or_value clickableParent) of
                       Inl err \<Rightarrow> Inl err
                     | Inr clickableText \<Rightarrow>
                         Inr (Click (tag e) (selector_of e) (clientX event) (clientY event)
                                isRageClick isDeadClick)))))"

text \<open>
  \<open>trackClick\<close> has no \<open>try\<close>: an exception of a detector leaves the handler at once.
\<close>

definition trackClick ::
  "tracker_state \<Rightarrow> int \<Rightarrow> click_event \<Rightarrow> (error + unit) \<times> tracker_state" where
  "trackClick s now event =
     (let s0 = s\<lparr> clickCount := clickCount s + 1 \<rparr>
      in case detectRageClick s0 now event of
           (Inl e, s1) \<Rightarrow> (Inl e, s1)
         | (Inr isRageClick, s1) \<Rightarrow>
             (case (if isRageClick then (Inr False, s1) else detectDeadClick s1 event) of
                (Inl e, s2) \<Rightarrow> (Inl e, s2)
              | (Inr isDeadClick, s2) \<Rightarrow>
                  (case detectFormCancelClick s2 event of
                     (Inl e, s3) \<Rightarrow> (Inl e, s3)
                   | (Inr _, s3) \<Rightarrow>
                       (case clickData event isRageClick isDeadClick of
                          Inl e \<Rightarrow> (Inl e, s3)
                        | Inr data \<Rightarrow> (Inr (), sendEvent s3 data)))))"

text \<open>A sequence of clicks, each with the clock reading of its handler.\<close>

fun click_events :: "tracker_state \<Rightarrow> (int \<times> click_event) list \<Rightarrow> tracker_state" where
  "click_events s [] = s"
| "click_events s ((now, event) # rest) = click_events (snd (trackClick s now event)) rest"

fun rage_clickCount :: "event_data \<Rightarrow> nat" where
  "rage_clickCount (RageClick n _ _ _ _ _) = n"
| "rage_clickCount _ = 0"

definition clicks_counted :: "tracker_state \<Rightarrow> nat" where
  "clicks_counted s = sum_list (map rage_clickCount (emitted s))"

section \<open>Mouse motion analyzer\<close>

text \<open>
  The loop of \<open>detectMouseThrashing\<close> visits the consecutive pairs of the buffer and
  carries \<open>totalDistance\<close>, \<open>changes\<close> and \<open>lastDirection\<close>. The differences of the
  coordinates, their squares, the sum of the squares, \<open>Math.sqrt\<close> and the addition to
  \<open>totalDistance\<close> are operations on doubles, each rounding its result.
\<close>

definition direction_of :: "double \<Rightarrow> double \<Rightarrow> string" where
  "direction_of dx dy =
     (if d_greater dx (Finite 0) then ''R'' else ''L'') @
     (if d_greater dy (Finite 0) then ''D'' else ''U'')"

fun thrash_loop ::
  "mouse_sample list \<Rightarrow> double \<times> nat \<times> string option \<Rightarrow> double \<times> nat \<times> string option" where
  "thrash_loop (prv # cur # rest) (totalDistance, changes, lastDirection) =
     (let dx = d_sub (js_number (m_x cur)) (js_number (m_x prv));
          dy = d_sub (js_number (m_y cur)) (js_number (m_y prv));
          direction = direction_of dx dy
      in thrash_loop (cur # rest)
           (d_add totalDistance (d_sqrt (d_add (d_mul dx dx) (d_mul dy dy))),
            (if lastDirection \<noteq> None \<and> Some direction \<noteq> lastDirection
             then changes + 1 else changes),
            Some direction))"
| "thrash_loop _ acc = acc"

definition path_length :: "mouse_sample list \<Rightarrow> double" where
  "path_length ms = fst (thrash_loop ms (Finite 0, 0, None))"

definition direction_changes :: "mouse_sample list \<Rightarrow> nat" where
  "direction_changes ms = fst (snd (thrash_loop ms (Finite 0, 0, None)))"

definition detectMouseThrashing :: "tracker_state \<Rightarrow> int \<Rightarrow> bool \<times> tracker_state" where
  "detectMouseThrashing s now =
     (let kept = filter (\<lambda>m. now - m_time m < 1000) (mouseMovements s);
          s1 = s\<lparr> mouseMovements := kept \<rparr>
      in if length kept < 10 then (False, s1)
         else if d_greater (path_length kept) (Finite 500) \<and> direction_changes kept \<ge> 4
         then (True,
               (sendEvent s1
                  (MouseThrash (math_round (path_length kept)) (direction_changes kept)
                     (now - m_time (kept ! 0)) (length kept)))
               \<lparr> mouseMovements := [] \<rparr>)
         else (False, s1))"

text \<open>
  \<open>trackMouseMove\<close> reads the clock (\<open>now\<close>), and \<open>detectMouseThrashing\<close>, which it
  calls, reads it again (\<open>now2\<close>).
\<close>

record mouse_event =
  mouseX :: int
  mouseY :: int

definition trackMouseMove ::
  "tracker_state \<Rightarrow> int \<Rightarrow> int \<Rightarrow> mouse_event \<Rightarrow> tracker_state" where
  "trackMouseMove s now now2 event =
     (if mouseMovements s \<noteq> [] \<and> now - m_time (last (mouseMovements s)) < 50 then s
      else
        (let pushed = mouseMovements s @
               [\<lparr> m_time = now, m_x = mouseX event, m_y = mouseY event \<rparr>];
             s1 = s\<lparr> mouseMovements := filter (\<lambda>m. now - m_time m < 2000) pushed \<rparr>;
             s2 = snd (detectMouseThrashing s1 now2)
         in s2\<lparr> lastMousePosition := (mouseX event, mouseY event) \<rparr>))"

text \<open>A burst of mousemove events, each with the two clock readings of its handler.\<close>

fun mouse_events :: "tracker_state \<Rightarrow> (int \<times> int \<times> mouse_event) list \<Rightarrow> tracker_state" where
  "mouse_events s [] = s"
| "mouse_events s ((now, now2, event) # rest) = mouse_events (trackMouseMove s now now2 event) rest"

section \<open>Form lifecycle\<close>

text \<open>
  A form control with the properties the tracker reads: \<open>f_type\<close> is its \<open>type\<close>
  property, \<open>f_tag\<close> its lower-cased tag name, \<open>f_required\<close> its boolean \<open>required\<close>
  property. A form is its identity (\<open>formRef\<close>), three attributes (empty when absent)
  and the controls \<open>form.querySelectorAll('input, select, textarea')\<close> finds, in document
  order, with the values they have when the tracker looks.
\<close>

record form_field =
  f_name :: string
  f_id :: string
  f_type :: string
  f_tag :: string
  f_value :: string
  f_required :: bool

record form =
  formRef :: nat
  form_id :: string
  form_name :: string
  form_action :: string
  inputs :: "form_field list"


definition or_null :: "string \<Rightarrow> string option" where
  "or_null a = (if a \<noteq> [] then Some a else None)"

definition is_space :: "char \<Rightarrow> bool" where
  "is_space c \<longleftrightarrow> c \<in> set [CHR 0x09, CHR 0x0A, CHR 0x0B, CHR 0x0C, CHR 0x0D, CHR 0x20]"

definition trim :: "string \<Rightarrow> string" where
  "trim v = rev (dropWhile is_space (rev (dropWhile is_space v)))"

definition filled :: "form_field \<Rightarrow> bool" where
  "filled f \<longleftrightarrow> f_value f \<noteq> [] \<and> trim (f_value f) \<noteq> []"

definition getFormInfo :: "form \<Rightarrow> form_info" where
  "getFormInfo frm =
     \<lparr> formId = or_null (form_id frm),
       formName = or_null (form_name frm),
       formAction = or_null (form_action frm),
       totalFields = length (inputs frm),
       filledFields = length (filter filled (inputs frm)) \<rparr>"

text \<open>The operations of the \<open>Map\<close> \<open>activeForms\<close>.\<close>

definition forms_has :: "(nat \<times> form_data) list \<Rightarrow> nat \<Rightarrow> bool" where
  "forms_has m k \<longleftrightarrow> map_of m k \<noteq> None"


definition forms_delete :: "(nat \<times> form_data) list \<Rightarrow> nat \<Rightarrow> (nat \<times> form_data) list" where
  "forms_delete m k = filter (\<lambda>(k', v'). k' \<noteq> k) m"




definition checkFormAbandonment ::
  "tracker_state \<Rightarrow> int \<Rightarrow> form option \<Rightarrow> string \<Rightarrow> tracker_state" where
  "checkFormAbandonment s now form_opt reason =
     (case form_opt of
        None \<Rightarrow> s
      | Some frm \<Rightarrow>
          (case map_of (activeForms s) (formRef frm) of
             None \<Rightarrow> s
           | Some formData \<Rightarrow>
               if submitted formData
               then s\<lparr> activeForms := forms_delete (activeForms s) (formRef frm) \<rparr>
               else
                 (let formInfo = getFormInfo frm;
                      s1 = (if length (fieldsInteracted formData) > 0 \<and> filledFields formInfo > 0
                            then sendEvent s
                                   (FormAbandonment formInfo reason (fieldsInteracted formData)
                                      (case lastField formData of
                                         None \<Rightarrow> None
                                       | Some lf \<Rightarrow> or_null (lf_name lf))
                                      (now - startTime formData))
                            else s)
                  in s1\<lparr> activeForms := forms_delete (activeForms s1) (formRef frm) \<rparr>)))"

definition trackFormSubmit :: "tracker_state \<Rightarrow> int \<Rightarrow> form option \<Rightarrow> tracker_state" where
  "trackFormSubmit s now form_opt =
     (case form_opt of
        None \<Rightarrow> s
      | Some frm \<Rightarrow>
          (case map_of (activeForms s) (formRef frm) of
             Some formData \<Rightarrow>
               (sendEvent s
                  (FormSubmit (getFormInfo frm)
                     (Some (length (fieldsInteracted formData), now - startTime formData))))
               \<lparr> activeForms := forms_delete (activeForms s) (formRef frm) \<rparr>
           | None \<Rightarrow> sendEvent s (FormSubmit (getFormInfo frm) None)))"


definition cancelClickTimeout :: "tracker_state \<Rightarrow> int \<Rightarrow> form \<Rightarrow> tracker_state" where
  "cancelClickTimeout s now frm =
     (if forms_has (activeForms s) (formRef frm)
      then checkFormAbandonment s now (Some frm) ''cancel_clicked'' else s)"


section \<open>Notions used to state the properties\<close>

text \<open>
  The sample \<open>detectRageClick\<close> pushes, the buffer it has after the push and the pruning,
  and its two tests on that buffer; the test of \<open>detectDeadClick\<close>.
\<close>

definition click_sample_of :: "int \<Rightarrow> click_event \<Rightarrow> string \<Rightarrow> click_sample" where
  "click_sample_of now event sel =
     \<lparr> c_time = now, c_x = clientX event, c_y = clientY event, c_element = sel \<rparr>"

definition rage_kept :: "tracker_state \<Rightarrow> int \<Rightarrow> click_event \<Rightarrow> string \<Rightarrow> click_sample list" where
  "rage_kept s now event sel =
     filter (\<lambda>c. now - c_time c < 500) (recentClicks s @ [click_sample_of now event sel])"

definition rage_fires :: "click_sample list \<Rightarrow> bool" where
  "rage_fires kept \<longleftrightarrow> 3 \<le> length kept \<and> allInSameArea kept"

definition dead_fires :: "element \<Rightarrow> element list \<Rightarrow> bool" where
  "dead_fires el anc \<longleftrightarrow> looksClickable el \<and> \<not> isActuallyClickable el anc"

text \<open>
  The structural predicate of the specification: the element is, or is nested in, an
  anchor, button, input, select, textarea or \<open>role=button\<close> element, or has a click
  handler.
\<close>

definition structurally_clickable :: "element \<Rightarrow> element list \<Rightarrow> bool" where
  "structurally_clickable el anc \<longleftrightarrow>
     closest matches_interactive el anc \<noteq> None \<or> has_onclick el"

definition class_marker_or_image :: "element \<Rightarrow> bool" where
  "class_marker_or_image el \<longleftrightarrow>
     tag el = ''img'' \<or> ''btn'' \<in> set (classes el) \<or> ''button'' \<in> set (classes el) \<or>
     ''link'' \<in> set (classes el) \<or> ''clickable'' \<in> set (classes el)"

text \<open>
  No step of the click handler after the two detections throws: the string methods are
  called on strings, on the target and on its \<open>clickableParent\<close> if it has one.
\<close>

definition handler_completes :: "element \<Rightarrow> element list \<Rightarrow> bool" where
  "handler_completes el anc \<longleftrightarrow>
     string_method (text_or_value el) \<noteq> Inl TypeError \<and>
     optional_string_method (elem_type el) \<noteq> Inl TypeError \<and>
     (case closest matches_clickable_parent el anc of
        None \<Rightarrow> True
      | Some clickableParent \<Rightarrow> string_method (text_or_value clickableParent) \<noteq> Inl TypeError)"

definition pointer_cursor :: "element \<Rightarrow> bool" where
  "pointer_cursor el \<longleftrightarrow> style_cursor el = ''pointer'' \<or> computed_cursor el = ''pointer''"

text \<open>
  Inputs for the examples: a bare \<open>div\<close>, a \<open>label\<close> and a \<open>span\<close> of class \<open>btn\<close>,
  clicks on them.
\<close>

definition plain_div :: element where
  "plain_div = \<lparr> tag = ''div'', elemId = [], classes = [], role = None, has_onclick = False,
     style_cursor = [], computed_cursor = ''auto'', innerText = [], elem_value = Undefined,
     elem_type = Undefined \<rparr>"

definition btn_label :: element where
  "btn_label = \<lparr> tag = ''label'', elemId = [], classes = [''btn''], role = None,
     has_onclick = False, style_cursor = [], computed_cursor = ''auto'', innerText = ''Go'',
     elem_value = Undefined, elem_type = Undefined \<rparr>"

definition btn_span :: element where
  "btn_span = \<lparr> tag = ''span'', elemId = [], classes = [''btn''], role = None,
     has_onclick = False, style_cursor = [], computed_cursor = ''auto'', innerText = ''Go'',
     elem_value = Undefined, elem_type = Undefined \<rparr>"

text \<open>A \<open>progress\<close> element of class \<open>btn\<close> with the value 0.5: its \<open>value\<close> is a number.\<close>

definition progress_btn :: element where
  "progress_btn = \<lparr> tag = ''progress'', elemId = [], classes = [''btn''], role = None,
     has_onclick = False, style_cursor = [], computed_cursor = ''auto'', innerText = [],
     elem_value = OtherValue True, elem_type = Undefined \<rparr>"

definition click_on :: "element \<Rightarrow> int \<Rightarrow> int \<Rightarrow> click_event" where
  "click_on el x y = \<lparr> target = ElementNode el [], clientX = x, clientY = y \<rparr>"

definition click_on_document :: click_event where
  "click_on_document = \<lparr> target = DocumentNode, clientX = 10, clientY = 10 \<rparr>"







text \<open>
  The specification's words for what the loop of \<open>detectMouseThrashing\<close> computes: the
  Euclidean distance summed over the consecutive samples, and the number of places where
  the direction of one segment differs from the direction of the next. The distance is
  given twice: \<open>euclidean_path\<close> is the length of the path, a real number, and
  \<open>accumulated_distance\<close> is the sum as double-precision arithmetic accumulates it, from
  the first segment to the last.
\<close>

definition segment_length :: "mouse_sample \<Rightarrow> mouse_sample \<Rightarrow> real" where
  "segment_length a b =
     sqrt (real_of_int ((m_x b - m_x a) * (m_x b - m_x a) + (m_y b - m_y a) * (m_y b - m_y a)))"

definition euclidean_path :: "mouse_sample list \<Rightarrow> real" where
  "euclidean_path ms = sum_list (map (\<lambda>(a, b). segment_length a b) (zip ms (tl ms)))"

definition rounded_segment_length :: "mouse_sample \<Rightarrow> mouse_sample \<Rightarrow> double" where
  "rounded_segment_length a b =
     (let dx = d_sub (js_number (m_x b)) (js_number (m_x a));
          dy = d_sub (js_number (m_y b)) (js_number (m_y a))
      in d_sqrt (d_add (d_mul dx dx) (d_mul dy dy)))"

definition accumulated_distance :: "mouse_sample list \<Rightarrow> double" where
  "accumulated_distance ms =
     foldl d_add (Finite 0) (map (\<lambda>(a, b). rounded_segment_length a b) (zip ms (tl ms)))"

definition segment_direction :: "mouse_sample \<Rightarrow> mouse_sample \<Rightarrow> string" where
  "segment_direction a b =
     direction_of (d_sub (js_number (m_x b)) (js_number (m_x a)))
       (d_sub (js_number (m_y b)) (js_number (m_y a)))"

definition segment_directions :: "mouse_sample list \<Rightarrow> string list" where
  "segment_directions ms = map (\<lambda>(a, b). segment_direction a b) (zip ms (tl ms))"

text \<open>
  Coordinates below \<open>2 ^ 25\<close> in absolute value: their differences, the squares and the
  sum of two squares are below \<open>2 ^ 53\<close>, so that only \<open>Math.sqrt\<close> and the accumulation
  round.
\<close>

definition on_screen :: "mouse_sample \<Rightarrow> bool" where
  "on_screen m \<longleftrightarrow> \<bar>m_x m\<bar> < 33554432 \<and> \<bar>m_y m\<bar> < 33554432"

definition reversals :: "string list \<Rightarrow> nat" where
  "reversals ds = length (filter (\<lambda>(d, d'). d \<noteq> d') (zip ds (tl ds)))"

text \<open>The directions the loop compares: the last direction carried in, if any, then those of the segments.\<close>

definition opt_list :: "'a option \<Rightarrow> 'a list" where
  "opt_list x = (case x of None \<Rightarrow> [] | Some d \<Rightarrow> [d])"

definition direction_reversals :: "mouse_sample list \<Rightarrow> nat" where
  "direction_reversals ms = reversals (segment_directions ms)"

text \<open>
  The samples of the last 1000 ms, which is what \<open>detectMouseThrashing\<close> computes on, and
  the buffer \<open>trackMouseMove\<close> hands to it when it accepts a sample.
\<close>

definition thrash_window :: "mouse_sample list \<Rightarrow> int \<Rightarrow> mouse_sample list" where
  "thrash_window buf now = filter (\<lambda>m. now - m_time m < 1000) buf"

definition accepted_buffer :: "tracker_state \<Rightarrow> int \<Rightarrow> mouse_event \<Rightarrow> mouse_sample list" where
  "accepted_buffer s now event =
     filter (\<lambda>m. now - m_time m < 2000)
       (mouseMovements s @ [\<lparr> m_time = now, m_x = mouseX event, m_y = mouseY event \<rparr>])"

definition throttled :: "tracker_state \<Rightarrow> int \<Rightarrow> bool" where
  "throttled s now \<longleftrightarrow>
     mouseMovements s \<noteq> [] \<and> now - m_time (last (mouseMovements s)) < 50"

text \<open>
  The invariant of the mouse buffer: samples are in the order of their times and at least
  50 ms apart, and the whole buffer spans less than 1000 ms.
\<close>

definition mouse_inv :: "mouse_sample list \<Rightarrow> bool" where
  "mouse_inv buf \<longleftrightarrow>
     sorted_wrt (\<lambda>a b. 50 \<le> m_time b - m_time a) buf \<and>
     (\<forall>a \<in> set buf. \<forall>b \<in> set buf. m_time b - m_time a < 1000)"

text \<open>Inputs for the examples: a pointer that swings between x = 0 and x = 100 every 50 ms.\<close>

definition zigzag :: "nat \<Rightarrow> mouse_sample list" where
  "zigzag n =
     map (\<lambda>i. \<lparr> m_time = 50 * int i, m_x = (if even i then 0 else 100), m_y = 0 \<rparr>) [0..<n]"

definition move_to :: "int \<Rightarrow> int \<Rightarrow> mouse_event" where
  "move_to x y = \<lparr> mouseX = x, mouseY = y \<rparr>"

text \<open>
  A pointer that moves 193px to the right and then jitters: ten samples 50 ms apart, each
  segment in another direction than the one before. \<open>moves_along\<close> is the burst of
  mousemove events that delivers a list of samples, every handler reading the time of its
  sample on the clock.
\<close>

definition jitter_path :: "mouse_sample list" where
  "jitter_path =
     map (\<lambda>(i, x, y). \<lparr> m_time = 50 * int i, m_x = x, m_y = y \<rparr>)
       (enumerate 0
          [(200, 200), (393, 200), (388, 174), (392, 207), (379, 185),
           (404, 222), (388, 176), (390, 238), (380, 221), (398, 264)])"

definition moves_along :: "mouse_sample list \<Rightarrow> (int \<times> int \<times> mouse_event) list" where
  "moves_along ms = map (\<lambda>m. (m_time m, m_time m, move_to (m_x m) (m_y m))) ms"

text \<open>The invariant of the scroll tracker: what has been sent is the milestones up to the last one sent.\<close>

definition scroll_inv :: "tracker_state \<Rightarrow> bool" where
  "scroll_inv s \<longleftrightarrow>
     lastScrollDepthSent s \<in> set (0 # milestones) \<and>
     milestones_sent s = takeWhile (\<lambda>m. m \<le> lastScrollDepthSent s) milestones"

section \<open>Properties\<close>

subsection \<open>Auxiliary facts about the click handler\<close>


lemma emitted_sendEvent: "emitted (sendEvent s d) = emitted s @ [d]"
  by (simp add: emitted_def sendEvent_def)

lemma sendEvent_fields:
  "recentClicks (sendEvent s d) = recentClicks s"
  "rageClickCount (sendEvent s d) = rageClickCount s"
  "deadClickCount (sendEvent s d) = deadClickCount s"
  "mouseMovements (sendEvent s d) = mouseMovements s"
  "activeForms (sendEvent s d) = activeForms s"
  "clickCount (sendEvent s d) = clickCount s"
  by (simp_all add: sendEvent_def)

lemma emitted_update:
  "emitted (s\<lparr> recentClicks := a \<rparr>) = emitted s"
  "emitted (s\<lparr> rageClickCount := b \<rparr>) = emitted s"
  "emitted (s\<lparr> deadClickCount := c \<rparr>) = emitted s"
  "emitted (s\<lparr> clickCount := d \<rparr>) = emitted s"
  "emitted (s\<lparr> mouseMovements := e \<rparr>) = emitted s"
  "emitted (s\<lparr> lastMousePosition := f \<rparr>) = emitted s"
  "emitted (s\<lparr> activeForms := g \<rparr>) = emitted s"
  by (simp_all add: emitted_def)

lemma detectRageClick_element:
  assumes "target event = ElementNode el anc"
  shows "fst (detectRageClick s now event) = Inr (rage_fires (rage_kept s now event (selector_of el)))"
    and "recentClicks (snd (detectRageClick s now event)) =
           (if rage_fires (rage_kept s now event (selector_of el)) then []
            else rage_kept s now event (selector_of el))"
    and "emitted (snd (detectRageClick s now event)) = emitted s @
           (if rage_fires (rage_kept s now event (selector_of el))
            then [RageClick (length (rage_kept s now event (selector_of el)))
                    (now - c_time (rage_kept s now event (selector_of el) ! 0)) (clientX event)
                    (clientY event) (selector_of el) (rageClickCount s + 1)]
            else [])"
    and "rageClickCount (snd (detectRageClick s now event)) =
           rageClickCount s + (if rage_fires (rage_kept s now event (selector_of el)) then 1 else 0)"
  using assms unfolding rage_kept_def click_sample_of_def rage_fires_def
  by (simp_all add: detectRageClick_def Let_def emitted_sendEvent sendEvent_fields emitted_update)

lemma detectRageClick_document:
  assumes "target event = DocumentNode"
  shows "detectRageClick s now event = (Inl TypeError, s)"
  using assms by (simp add: detectRageClick_def)

lemma detectRageClick_clickCount_update:
  "detectRageClick (s\<lparr> clickCount := n \<rparr>) now event =
     (fst (detectRageClick s now event), (snd (detectRageClick s now event))\<lparr> clickCount := n \<rparr>)"
  by (simp add: detectRageClick_def Let_def sendEvent_def split: sum.splits)

lemma detectDeadClick_element:
  assumes "target event = ElementNode el anc"
  shows "detectDeadClick s event =
     (Inr (dead_fires el anc),
      if dead_fires el anc
      then sendEvent (s\<lparr> deadClickCount := deadClickCount s + 1 \<rparr>)
             (DeadClick (selector_of el) (clientX event) (clientY event) (deadClickCount s + 1))
      else s)"
  using assms by (simp add: detectDeadClick_def dead_fires_def)

lemma error_is_TypeError: "(e :: error) = TypeError"
  by (cases e)

lemma click_tail_element:
  assumes "target event = ElementNode el anc"
  shows "(case detectFormCancelClick s event of
            (Inl e, s3) \<Rightarrow> (Inl e, s3)
          | (Inr _, s3) \<Rightarrow>
              (case clickData event r d of
                 Inl e \<Rightarrow> (Inl e, s3)
               | Inr data \<Rightarrow> (Inr (), sendEvent s3 data)))
         = (if handler_completes el anc
            then (Inr (),
                  sendEvent s (Click (tag el) (selector_of el) (clientX event) (clientY event) r d))
            else (Inl TypeError, s))"
  using assms
  by (auto simp: detectFormCancelClick_def clickData_def handler_completes_def
      error_is_TypeError [of "_ :: error"] split: sum.splits option.splits)

lemma trackClick_element:
  assumes "target event = ElementNode el anc"
  shows "fst (trackClick s now event) = (if handler_completes el anc then Inr () else Inl TypeError)"
    and "emitted (snd (trackClick s now event)) =
           emitted (snd (detectRageClick s now event)) @
           (if \<not> rage_fires (rage_kept s now event (selector_of el)) \<and> dead_fires el anc
            then [DeadClick (selector_of el) (clientX event) (clientY event) (deadClickCount s + 1)]
            else []) @
           (if handler_completes el anc
            then [Click (tag el) (selector_of el) (clientX event) (clientY event)
                    (rage_fires (rage_kept s now event (selector_of el)))
                    (\<not> rage_fires (rage_kept s now event (selector_of el)) \<and> dead_fires el anc)]
            else [])"
    and "recentClicks (snd (trackClick s now event)) = recentClicks (snd (detectRageClick s now event))"
    and "rageClickCount (snd (trackClick s now event)) = rageClickCount (snd (detectRageClick s now event))"
proof -
  obtain r s1 where d: "detectRageClick s now event = (r, s1)"
    by (cases "detectRageClick s now event")
  have r: "r = Inr (rage_fires (rage_kept s now event (selector_of el)))"
    using detectRageClick_element(1) [OF assms, of s now] d by simp
  have dc: "deadClickCount s1 = deadClickCount s"
    using d by (auto simp: detectRageClick_def Let_def sendEvent_def split: sum.splits if_splits)
  note defs = trackClick_def detectRageClick_clickCount_update d r detectDeadClick_element [OF assms]
    click_tail_element [OF assms] emitted_sendEvent emitted_update sendEvent_fields dc
  show "fst (trackClick s now event) = (if handler_completes el anc then Inr () else Inl TypeError)"
    by (simp add: defs Let_def)
  show "emitted (snd (trackClick s now event)) =
           emitted (snd (detectRageClick s now event)) @
           (if \<not> rage_fires (rage_kept s now event (selector_of el)) \<and> dead_fires el anc
            then [DeadClick (selector_of el) (clientX event) (clientY event) (deadClickCount s + 1)]
            else []) @
           (if handler_completes el anc
            then [Click (tag el) (selector_of el) (clientX event) (clientY event)
                    (rage_fires (rage_kept s now event (selector_of el)))
                    (\<not> rage_fires (rage_kept s now event (selector_of el)) \<and> dead_fires el anc)]
            else [])"
    by (simp add: defs Let_def)
  show "recentClicks (snd (trackClick s now event)) = recentClicks (snd (detectRageClick s now event))"
    by (simp add: defs Let_def)
  show "rageClickCount (snd (trackClick s now event)) = rageClickCount (snd (detectRageClick s now event))"
    by (simp add: defs Let_def)
qed

lemma trackClick_document:
  assumes "target event = DocumentNode"
  shows "trackClick s now event = (Inl TypeError, s\<lparr> clickCount := clickCount s + 1 \<rparr>)"
  using assms by (simp add: trackClick_def detectRageClick_def Let_def)

lemma trackClick_rage_events:
  assumes "target event = ElementNode el anc"
  shows "emitted_of ''rage_click'' (snd (trackClick s now event)) =
           emitted_of ''rage_click'' s @
           (if rage_fires (rage_kept s now event (selector_of el))
            then [RageClick (length (rage_kept s now event (selector_of el)))
                    (now - c_time (rage_kept s now event (selector_of el) ! 0)) (clientX event)
                    (clientY event) (selector_of el) (rageClickCount s + 1)]
            else [])"
  by (simp add: emitted_of_def trackClick_element(2) [OF assms] detectRageClick_element(3) [OF assms])

lemma trackClick_buffer:
  assumes "target event = ElementNode el anc"
  shows "recentClicks (snd (trackClick s now event)) =
           (if rage_fires (rage_kept s now event (selector_of el)) then []
            else rage_kept s now event (selector_of el))"
  by (simp add: trackClick_element(3) [OF assms] detectRageClick_element(2) [OF assms])

lemma length_rage_kept: "length (rage_kept s now event sel) \<le> length (recentClicks s) + 1"
proof -
  have "length (rage_kept s now event sel) \<le> length (recentClicks s @ [click_sample_of now event sel])"
    unfolding rage_kept_def by (rule length_filter_le)
  then show ?thesis by simp
qed

lemma trackClick_counted:
  "clicks_counted (snd (trackClick s now event)) + length (recentClicks (snd (trackClick s now event)))
     \<le> clicks_counted s + length (recentClicks s) + 1"
proof (cases "target event")
  case DocumentNode
  then show ?thesis
    by (simp add: trackClick_document clicks_counted_def emitted_update)
next
  case (ElementNode el anc)
  show ?thesis
    using length_rage_kept [of s now event "selector_of el"]
    by (simp add: clicks_counted_def trackClick_element(2) [OF ElementNode]
        detectRageClick_element(3) [OF ElementNode] trackClick_buffer [OF ElementNode])
qed

lemma click_events_counted:
  "clicks_counted (click_events s evs) + length (recentClicks (click_events s evs))
     \<le> clicks_counted s + length (recentClicks s) + length evs"
proof (induction evs arbitrary: s)
  case Nil
  then show ?case by simp
next
  case (Cons ev evs)
  obtain now event where ev: "ev = (now, event)" by (cases ev)
  have "clicks_counted (click_events s (ev # evs)) + length (recentClicks (click_events s (ev # evs)))
          \<le> clicks_counted (snd (trackClick s now event))
             + length (recentClicks (snd (trackClick s now event))) + length evs"
    using Cons.IH [of "snd (trackClick s now event)"] by (simp add: ev)
  also have "\<dots> \<le> clicks_counted s + length (recentClicks s) + 1 + length evs"
    using trackClick_counted [of s now event] by simp
  finally show ?case by simp
qed

lemma three_click_burst:
  assumes empty: "recentClicks s = []"
    and t1: "target e1 = ElementNode el1 a1"
    and t2: "target e2 = ElementNode el2 a2"
    and t3: "target e3 = ElementNode el3 a3"
    and times: "n1 \<le> n2" "n2 \<le> n3" "n3 - n1 < 500"
    and near2: "\<bar>clientX e2 - clientX e1\<bar> < 50" "\<bar>clientY e2 - clientY e1\<bar> < 50"
    and near3: "\<bar>clientX e3 - clientX e1\<bar> < 50" "\<bar>clientY e3 - clientY e1\<bar> < 50"
  shows "emitted_of ''rage_click'' (click_events s [(n1, e1), (n2, e2), (n3, e3)]) =
           emitted_of ''rage_click'' s @
           [RageClick 3 (n3 - n1) (clientX e3) (clientY e3) (selector_of el3) (rageClickCount s + 1)]"
    and "recentClicks (click_events s [(n1, e1), (n2, e2), (n3, e3)]) = []"
proof -
  let ?c1 = "click_sample_of n1 e1 (selector_of el1)"
  let ?c2 = "click_sample_of n2 e2 (selector_of el2)"
  let ?c3 = "click_sample_of n3 e3 (selector_of el3)"
  let ?s1 = "snd (trackClick s n1 e1)"
  let ?s2 = "snd (trackClick ?s1 n2 e2)"
  let ?s3 = "snd (trackClick ?s2 n3 e3)"
  have k1: "rage_kept s n1 e1 (selector_of el1) = [?c1]"
    by (simp add: rage_kept_def empty click_sample_of_def)
  have f1: "\<not> rage_fires [?c1]" by (simp add: rage_fires_def)
  have b1: "recentClicks ?s1 = [?c1]"
    by (simp add: trackClick_buffer [OF t1] k1 f1)
  have r1: "emitted_of ''rage_click'' ?s1 = emitted_of ''rage_click'' s"
    by (simp add: trackClick_rage_events [OF t1] k1 f1)
  have c1: "rageClickCount ?s1 = rageClickCount s"
    by (simp add: trackClick_element(4) [OF t1] detectRageClick_element(4) [OF t1] k1 f1)
  have k2: "rage_kept ?s1 n2 e2 (selector_of el2) = [?c1, ?c2]"
    using times by (simp add: rage_kept_def b1 click_sample_of_def)
  have f2: "\<not> rage_fires [?c1, ?c2]" by (simp add: rage_fires_def)
  have b2: "recentClicks ?s2 = [?c1, ?c2]"
    by (simp add: trackClick_buffer [OF t2] k2 f2)
  have r2: "emitted_of ''rage_click'' ?s2 = emitted_of ''rage_click'' s"
    by (simp add: trackClick_rage_events [OF t2] k2 f2 r1)
  have c2: "rageClickCount ?s2 = rageClickCount s"
    by (simp add: trackClick_element(4) [OF t2] detectRageClick_element(4) [OF t2] k2 f2 c1)
  have k3: "rage_kept ?s2 n3 e3 (selector_of el3) = [?c1, ?c2, ?c3]"
    using times by (simp add: rage_kept_def b2 click_sample_of_def)
  have ct: "c_time ?c1 = n1" by (simp add: click_sample_of_def)
  have f3: "rage_fires [?c1, ?c2, ?c3]"
    using near2 near3 by (simp add: rage_fires_def allInSameArea_def click_sample_of_def)
  show "emitted_of ''rage_click'' (click_events s [(n1, e1), (n2, e2), (n3, e3)]) =
           emitted_of ''rage_click'' s @
           [RageClick 3 (n3 - n1) (clientX e3) (clientY e3) (selector_of el3) (rageClickCount s + 1)]"
    by (simp add: trackClick_rage_events [OF t3] k3 f3 r2 c2 ct)
  show "recentClicks (click_events s [(n1, e1), (n2, e2), (n3, e3)]) = []"
    by (simp add: trackClick_buffer [OF t3] k3 f3)
qed


lemma rage_fires_iff:
  "rage_fires kept \<longleftrightarrow>
     3 \<le> length kept \<and>
     (\<forall>c \<in> set kept. \<bar>c_x c - c_x (kept ! 0)\<bar> < 50 \<and> \<bar>c_y c - c_y (kept ! 0)\<bar> < 50)"
  by (simp add: rage_fires_def allInSameArea_def list_all_iff Let_def)


lemma click_on_simps:
  "target (click_on el x y) = ElementNode el []"
  "clientX (click_on el x y) = x"
  "clientY (click_on el x y) = y"
  by (simp_all add: click_on_def)

subsection \<open>Rage clicks\<close>

text \<open>
  C1 (as amended). After a click on an element has been appended and the samples that are
  500 ms old or older have been dropped: if the buffer holds at least 3 samples and every
  one of them is less than 50px from the first buffered sample on both axes, exactly one
  \<open>rage_click\<close> is emitted, with \<open>clickCount\<close> the number of buffered samples, and the
  buffer is cleared; otherwise no \<open>rage_click\<close> is emitted and the pruned buffer is kept.
  So three clicks from an empty buffer, at non-decreasing times less than 500 ms apart and
  each less than 50px from the first on both axes, give exactly one \<open>rage_click\<close> with
  \<open>clickCount = 3\<close> and an empty buffer; and over any sequence of clicks the
  \<open>clickCount\<close>s of the \<open>rage_click\<close>s emitted and the samples still buffered together
  never exceed the number of clicks, so no click is counted twice.
\<close>

theorem rage_click_when_whole_buffer_is_near:
  "(target event = ElementNode el anc \<longrightarrow>
      (let kept = rage_kept s now event (selector_of el);
           s' = snd (detectRageClick s now event)
       in if 3 \<le> length kept \<and>
             (\<forall>c \<in> set kept. \<bar>c_x c - c_x (kept ! 0)\<bar> < 50 \<and> \<bar>c_y c - c_y (kept ! 0)\<bar> < 50)
          then fst (detectRageClick s now event) = Inr True \<and>
               emitted s' = emitted s @
                 [RageClick (length kept) (now - c_time (kept ! 0)) (clientX event)
                    (clientY event) (selector_of el) (rageClickCount s + 1)] \<and>
               recentClicks s' = []
          else fst (detectRageClick s now event) = Inr False \<and>
               emitted s' = emitted s \<and> recentClicks s' = kept))
   \<and> (recentClicks s0 = [] \<and> target e1 = ElementNode el1 a1 \<and> target e2 = ElementNode el2 a2 \<and>
      target e3 = ElementNode el3 a3 \<and> n1 \<le> n2 \<and> n2 \<le> n3 \<and> n3 - n1 < 500 \<and>
      \<bar>clientX e2 - clientX e1\<bar> < 50 \<and> \<bar>clientY e2 - clientY e1\<bar> < 50 \<and>
      \<bar>clientX e3 - clientX e1\<bar> < 50 \<and> \<bar>clientY e3 - clientY e1\<bar> < 50 \<longrightarrow>
      emitted_of ''rage_click'' (click_events s0 [(n1, e1), (n2, e2), (n3, e3)]) =
        emitted_of ''rage_click'' s0 @
        [RageClick 3 (n3 - n1) (clientX e3) (clientY e3) (selector_of el3) (rageClickCount s0 + 1)] \<and>
      recentClicks (click_events s0 [(n1, e1), (n2, e2), (n3, e3)]) = [])
   \<and> clicks_counted (click_events s0 evs) + length (recentClicks (click_events s0 evs))
       \<le> clicks_counted s0 + length (recentClicks s0) + length evs"
proof (intro conjI impI)
  assume t: "target event = ElementNode el anc"
  show "let kept = rage_kept s now event (selector_of el);
           s' = snd (detectRageClick s now event)
       in if 3 \<le> length kept \<and>
             (\<forall>c \<in> set kept. \<bar>c_x c - c_x (kept ! 0)\<bar> < 50 \<and> \<bar>c_y c - c_y (kept ! 0)\<bar> < 50)
          then fst (detectRageClick s now event) = Inr True \<and>
               emitted s' = emitted s @
                 [RageClick (length kept) (now - c_time (kept ! 0)) (clientX event)
                    (clientY event) (selector_of el) (rageClickCount s + 1)] \<and>
               recentClicks s' = []
          else fst (detectRageClick s now event) = Inr False \<and>
               emitted s' = emitted s \<and> recentClicks s' = kept"
    using rage_fires_iff [of "rage_kept s now event (selector_of el)"]
    by (simp add: Let_def detectRageClick_element [OF t])
next
  assume h: "recentClicks s0 = [] \<and> target e1 = ElementNode el1 a1 \<and> target e2 = ElementNode el2 a2 \<and>
      target e3 = ElementNode el3 a3 \<and> n1 \<le> n2 \<and> n2 \<le> n3 \<and> n3 - n1 < 500 \<and>
      \<bar>clientX e2 - clientX e1\<bar> < 50 \<and> \<bar>clientY e2 - clientY e1\<bar> < 50 \<and>
      \<bar>clientX e3 - clientX e1\<bar> < 50 \<and> \<bar>clientY e3 - clientY e1\<bar> < 50"
  then show "emitted_of ''rage_click'' (click_events s0 [(n1, e1), (n2, e2), (n3, e3)]) =
        emitted_of ''rage_click'' s0 @
        [RageClick 3 (n3 - n1) (clientX e3) (clientY e3) (selector_of el3) (rageClickCount s0 + 1)]"
    by (intro three_click_burst(1) [where ?a1.0 = a1 and ?a2.0 = a2 and ?a3.0 = a3 and ?el1.0 = el1 and ?el2.0 = el2]) simp_all
  from h show "recentClicks (click_events s0 [(n1, e1), (n2, e2), (n3, e3)]) = []"
    by (intro three_click_burst(2) [where ?a1.0 = a1 and ?a2.0 = a2 and ?a3.0 = a3 and ?el1.0 = el1 and ?el2.0 = el2 and ?el3.0 = el3]) simp_all
next
  show "clicks_counted (click_events s0 evs) + length (recentClicks (click_events s0 evs))
       \<le> clicks_counted s0 + length (recentClicks s0) + length evs"
    by (rule click_events_counted)
qed

text \<open>
  The scenario of the specification: clicks at (100,100), (110,105), (120,95) within 300 ms
  on the same element.
\<close>

theorem rage_click_when_whole_buffer_is_near_witness:
  "emitted_of ''rage_click''
     (click_events initial_state
        [(0, click_on plain_div 100 100), (100, click_on plain_div 110 105),
         (300, click_on plain_div 120 95)]) = [RageClick 3 300 120 95 ''div'' 1]
   \<and> recentClicks
       (click_events initial_state
          [(0, click_on plain_div 100 100), (100, click_on plain_div 110 105),
           (300, click_on plain_div 120 95)]) = []
   \<and> fst (detectRageClick
            (click_events initial_state
               [(0, click_on plain_div 100 100), (100, click_on plain_div 110 105)])
            300 (click_on plain_div 120 95)) = Inr True"
proof -
  define s2 where "s2 = click_events initial_state
                     [(0, click_on plain_div 100 100), (100, click_on plain_div 110 105)]"
  have buf: "recentClicks s2 =
      [\<lparr> c_time = 0, c_x = 100, c_y = 100, c_element = ''div'' \<rparr>,
       \<lparr> c_time = 100, c_x = 110, c_y = 105, c_element = ''div'' \<rparr>]"
    unfolding s2_def by code_simp
  have sel: "selector_of plain_div = ''div''" by code_simp
  have kept: "rage_kept s2 300 (click_on plain_div 120 95) ''div'' =
      [\<lparr> c_time = 0, c_x = 100, c_y = 100, c_element = ''div'' \<rparr>,
       \<lparr> c_time = 100, c_x = 110, c_y = 105, c_element = ''div'' \<rparr>,
       \<lparr> c_time = 300, c_x = 120, c_y = 95, c_element = ''div'' \<rparr>]"
    by (simp add: rage_kept_def buf click_sample_of_def click_on_simps)
  have init: "recentClicks initial_state = []" "emitted_of ''rage_click'' initial_state = []"
    "rageClickCount initial_state = 0"
    by (simp_all add: initial_state_def emitted_of_def emitted_def)
  note inst = rage_click_when_whole_buffer_is_near
      [where event = "click_on plain_div 120 95" and el = plain_div and anc = "[]"
         and s = s2 and now = 300 and ?s0.0 = initial_state
         and ?e1.0 = "click_on plain_div 100 100" and ?e2.0 = "click_on plain_div 110 105"
         and ?e3.0 = "click_on plain_div 120 95" and ?el1.0 = plain_div and ?el2.0 = plain_div
         and ?el3.0 = plain_div and ?a1.0 = "[]" and ?a2.0 = "[]" and ?a3.0 = "[]"
         and ?n1.0 = 0 and ?n2.0 = 100 and ?n3.0 = 300 and evs = "[]"]
  have fires: "fst (detectRageClick s2 300 (click_on plain_div 120 95)) = Inr True"
    using inst by (simp add: sel kept Let_def click_on_simps)
  have burst: "emitted_of ''rage_click''
     (click_events initial_state
        [(0, click_on plain_div 100 100), (100, click_on plain_div 110 105),
         (300, click_on plain_div 120 95)]) = [RageClick 3 300 120 95 ''div'' 1]
   \<and> recentClicks
       (click_events initial_state
          [(0, click_on plain_div 100 100), (100, click_on plain_div 110 105),
           (300, click_on plain_div 120 95)]) = []"
    using inst by (simp add: sel init click_on_simps)
  show ?thesis
    using fires burst unfolding s2_def by blast
qed

text \<open>
  C1 as stated fails: four clicks within 300 ms, of which the first, third and fourth are at
  the same point and the second is far away. Three buffered clicks are within the 500 ms
  window and within 50px of the first buffered click, yet no \<open>rage_click\<close> is emitted and
  the buffer is not cleared, because \<open>allInSameArea\<close> asks every buffered click to be near.
\<close>

theorem rage_click_outlier_counterexample:
  "let s = click_events initial_state
           [(0, click_on plain_div 0 0), (100, click_on plain_div 1000 1000),
            (200, click_on plain_div 0 0), (300, click_on plain_div 0 0)]
   in 3 \<le> length (filter (\<lambda>c. 300 - c_time c < 500
                      \<and> \<bar>c_x c - c_x (recentClicks s ! 0)\<bar> < 50
                      \<and> \<bar>c_y c - c_y (recentClicks s ! 0)\<bar> < 50) (recentClicks s))
      \<and> emitted_of ''rage_click'' s = [] \<and> length (recentClicks s) = 4"
  by code_simp


subsection \<open>Dead clicks\<close>

lemma isActuallyClickable_iff:
  "isActuallyClickable el anc \<longleftrightarrow>
     structurally_clickable el anc \<or> tag el = ''label'' \<or> pointer_cursor el"
  by (auto simp: isActuallyClickable_def isClickableElement_def structurally_clickable_def
      pointer_cursor_def clickableTags_def closest_def matches_interactive_def)

lemma looksClickable_iff:
  "looksClickable el \<longleftrightarrow> pointer_cursor el \<or> class_marker_or_image el"
  by (auto simp: looksClickable_def pointer_cursor_def class_marker_or_image_def)

lemma trackClick_dead_events:
  assumes "target event = ElementNode el anc"
  shows "emitted_of ''dead_click'' (snd (trackClick s now event)) =
           emitted_of ''dead_click'' s @
           (if \<not> rage_fires (rage_kept s now event (selector_of el)) \<and> dead_fires el anc
            then [DeadClick (selector_of el) (clientX event) (clientY event) (deadClickCount s + 1)]
            else [])"
  by (simp add: emitted_of_def trackClick_element(2) [OF assms] detectRageClick_element(3) [OF assms])

text \<open>
  C2 (as amended). For every click on an element that is not a rage click and whose target
  has no pointer cursor (neither inline nor computed), \<open>dead_click\<close> is emitted if and only
  if the target is an image or carries one of the classes \<open>btn\<close>, \<open>button\<close>, \<open>link\<close>,
  \<open>clickable\<close>, is not a \<open>label\<close>, and fails the structural predicate (it is not, and is
  not nested in, an anchor, button, input, select, textarea or \<open>role=button\<close> element, and
  has no click handler). \<open>dead_click\<close> never fires for an element that satisfies the
  structural predicate, whatever its styling, nor on a rage click.
\<close>

theorem dead_click_without_pointer_cursor:
  "(target event = ElementNode el anc \<and> \<not> pointer_cursor el \<longrightarrow>
      emitted_of ''dead_click'' (snd (trackClick s now event)) =
        emitted_of ''dead_click'' s @
        (if \<not> rage_fires (rage_kept s now event (selector_of el)) \<and>
            class_marker_or_image el \<and> tag el \<noteq> ''label'' \<and> \<not> structurally_clickable el anc
         then [DeadClick (selector_of el) (clientX event) (clientY event) (deadClickCount s + 1)]
         else []))
   \<and> (target event = ElementNode el anc \<and>
        (structurally_clickable el anc \<or> rage_fires (rage_kept s now event (selector_of el))) \<longrightarrow>
      emitted_of ''dead_click'' (snd (trackClick s now event)) = emitted_of ''dead_click'' s)"
  by (auto simp: trackClick_dead_events dead_fires_def isActuallyClickable_iff looksClickable_iff)

theorem dead_click_without_pointer_cursor_witness:
  "emitted_of ''dead_click'' (snd (trackClick initial_state 0 (click_on btn_span 5 7))) =
     [DeadClick ''span.btn'' 5 7 1]
   \<and> emitted_of ''dead_click''
       (snd (trackClick initial_state 0
          \<lparr> target = ElementNode btn_span [plain_div\<lparr> tag := ''a'' \<rparr>], clientX = 5, clientY = 7 \<rparr>)) = []"
proof -
  have sel: "selector_of btn_span = ''span.btn''" by code_simp
  have a: "\<not> pointer_cursor btn_span" "class_marker_or_image btn_span" "tag btn_span \<noteq> ''label''"
    "\<not> structurally_clickable btn_span []"
    "structurally_clickable btn_span [plain_div\<lparr> tag := ''a'' \<rparr>]"
    by (simp_all add: pointer_cursor_def class_marker_or_image_def btn_span_def plain_div_def
        structurally_clickable_def closest_def matches_interactive_def)
  have b: "\<not> rage_fires (rage_kept initial_state 0 (click_on btn_span 5 7) ''span.btn'')"
    by (simp add: rage_fires_def rage_kept_def initial_state_def)
  have init: "emitted_of ''dead_click'' initial_state = []" "deadClickCount initial_state = 0"
    by (simp_all add: initial_state_def emitted_of_def emitted_def)
  have one: "emitted_of ''dead_click'' (snd (trackClick initial_state 0 (click_on btn_span 5 7))) =
     [DeadClick ''span.btn'' 5 7 1]"
    using dead_click_without_pointer_cursor
      [where event = "click_on btn_span 5 7" and el = btn_span and anc = "[]"
         and s = initial_state and now = 0]
    by (simp add: click_on_simps sel a b init)
  have two: "emitted_of ''dead_click''
       (snd (trackClick initial_state 0
          \<lparr> target = ElementNode btn_span [plain_div\<lparr> tag := ''a'' \<rparr>], clientX = 5, clientY = 7 \<rparr>)) = []"
    using dead_click_without_pointer_cursor
      [where event = "\<lparr> target = ElementNode btn_span [plain_div\<lparr> tag := ''a'' \<rparr>], clientX = 5, clientY = 7 \<rparr>"
         and el = btn_span and anc = "[plain_div\<lparr> tag := ''a'' \<rparr>]"
         and s = initial_state and now = 0]
    by (simp add: a init)
  show ?thesis using one two by blast
qed

text \<open>
  C2 as stated fails: a \<open>label\<close> of class \<open>btn\<close>, not nested in anything, without a
  handler and without a pointer cursor, looks clickable and fails the structural predicate of
  the claim, yet the click on it (not a rage click) emits no \<open>dead_click\<close>: \<open>label\<close> is one
  of the \<open>clickableTags\<close> of \<open>isClickableElement\<close>.
\<close>

theorem dead_click_label_counterexample:
  "looksClickable btn_label \<and> \<not> structurally_clickable btn_label [] \<and>
   emitted (snd (trackClick initial_state 0 (click_on btn_label 5 7))) =
     [Click ''label'' ''label.btn'' 5 7 False False]"
  by code_simp

text \<open>
  A pointer cursor, inline or computed, makes \<open>isClickableElement\<close> true, so the two cursor
  tests of \<open>looksClickable\<close> never lead to a \<open>dead_click\<close>.
\<close>

lemma pointer_cursor_never_dead:
  "target event = ElementNode el anc \<Longrightarrow> pointer_cursor el \<Longrightarrow>
   emitted_of ''dead_click'' (snd (trackClick s now event)) = emitted_of ''dead_click'' s"
  by (simp add: trackClick_dead_events dead_fires_def isActuallyClickable_iff)

subsection \<open>Exceptions in the click handler\<close>

text \<open>
  C10 (as amended). The click handler runs rage-click detection, dead-click detection,
  cancel-click detection and the emission of the \<open>click\<close> event one after the other, with
  no isolation between them: an exception thrown in one of them ends the handler there.
  When rage-click detection throws, the handler ends with that exception, emits nothing and
  counts no dead click, and only the click counter has changed. When cancel-click detection
  throws, the handler ends with that exception and sends no \<open>click\<close> event. On an element
  the \<open>rage_click\<close> or \<open>dead_click\<close> found is emitted in either case, and the \<open>click\<close>
  event is emitted after them exactly when no later step throws, that is when the string
  methods of cancel-click detection and of the click data are called on strings; otherwise
  the handler ends with a \<open>TypeError\<close>.
\<close>

theorem click_handler_stops_at_first_exception:
  "(fst (detectRageClick (s\<lparr> clickCount := clickCount s + 1 \<rparr>) now event) = Inl e \<longrightarrow>
      trackClick s now event = (Inl e, s\<lparr> clickCount := clickCount s + 1 \<rparr>) \<and>
      emitted (snd (trackClick s now event)) = emitted s \<and>
      deadClickCount (snd (trackClick s now event)) = deadClickCount s)
   \<and> (fst (detectFormCancelClick s event) = Inl e \<longrightarrow>
        fst (trackClick s now event) = Inl e \<and>
        emitted_of ''click'' (snd (trackClick s now event)) = emitted_of ''click'' s)
   \<and> (target event = ElementNode el anc \<longrightarrow>
        fst (trackClick s now event) =
          (if handler_completes el anc then Inr () else Inl TypeError) \<and>
        emitted (snd (trackClick s now event)) =
          emitted s @
          (if rage_fires (rage_kept s now event (selector_of el))
           then [RageClick (length (rage_kept s now event (selector_of el)))
                   (now - c_time (rage_kept s now event (selector_of el) ! 0)) (clientX event)
                   (clientY event) (selector_of el) (rageClickCount s + 1)]
           else []) @
          (if \<not> rage_fires (rage_kept s now event (selector_of el)) \<and> dead_fires el anc
           then [DeadClick (selector_of el) (clientX event) (clientY event) (deadClickCount s + 1)]
           else []) @
          (if handler_completes el anc
           then [Click (tag el) (selector_of el) (clientX event) (clientY event)
                   (rage_fires (rage_kept s now event (selector_of el)))
                   (\<not> rage_fires (rage_kept s now event (selector_of el)) \<and> dead_fires el anc)]
           else []))"
proof (intro conjI impI)
  assume thrown: "fst (detectRageClick (s\<lparr> clickCount := clickCount s + 1 \<rparr>) now event) = Inl e"
  have doc: "target event = DocumentNode"
  proof (cases "target event")
    case DocumentNode
    then show ?thesis .
  next
    case (ElementNode el' anc')
    with thrown show ?thesis
      by (simp add: detectRageClick_element(1) [OF ElementNode])
  qed
  show "trackClick s now event = (Inl e, s\<lparr> clickCount := clickCount s + 1 \<rparr>)"
    by (simp add: trackClick_document [OF doc] error_is_TypeError [of e])
  then show "emitted (snd (trackClick s now event)) = emitted s"
    by (simp add: emitted_update)
  show "deadClickCount (snd (trackClick s now event)) = deadClickCount s"
    by (simp add: trackClick_document [OF doc])
next
  assume thrown: "fst (detectFormCancelClick s event) = Inl e"
  show "fst (trackClick s now event) = Inl e"
  proof (cases "target event")
    case DocumentNode
    then show ?thesis
      by (simp add: trackClick_document error_is_TypeError [of e])
  next
    case (ElementNode el' anc')
    from thrown have "\<not> handler_completes el' anc'"
      by (auto simp: detectFormCancelClick_def handler_completes_def ElementNode
          error_is_TypeError [of "_ :: error"] split: sum.splits)
    then show ?thesis
      by (simp add: trackClick_element(1) [OF ElementNode] error_is_TypeError [of e])
  qed
  show "emitted_of ''click'' (snd (trackClick s now event)) = emitted_of ''click'' s"
  proof (cases "target event")
    case DocumentNode
    then show ?thesis
      by (simp add: trackClick_document emitted_of_def emitted_update)
  next
    case (ElementNode el' anc')
    from thrown have "\<not> handler_completes el' anc'"
      by (auto simp: detectFormCancelClick_def handler_completes_def ElementNode
          error_is_TypeError [of "_ :: error"] split: sum.splits)
    then show ?thesis
      by (simp add: emitted_of_def trackClick_element(2) [OF ElementNode]
          detectRageClick_element(3) [OF ElementNode])
  qed
next
  assume t: "target event = ElementNode el anc"
  show "fst (trackClick s now event) = (if handler_completes el anc then Inr () else Inl TypeError)"
    by (rule trackClick_element(1) [OF t])
  show "emitted (snd (trackClick s now event)) =
          emitted s @
          (if rage_fires (rage_kept s now event (selector_of el))
           then [RageClick (length (rage_kept s now event (selector_of el)))
                   (now - c_time (rage_kept s now event (selector_of el) ! 0)) (clientX event)
                   (clientY event) (selector_of el) (rageClickCount s + 1)]
           else []) @
          (if \<not> rage_fires (rage_kept s now event (selector_of el)) \<and> dead_fires el anc
           then [DeadClick (selector_of el) (clientX event) (clientY event) (deadClickCount s + 1)]
           else []) @
          (if handler_completes el anc
           then [Click (tag el) (selector_of el) (clientX event) (clientY event)
                   (rage_fires (rage_kept s now event (selector_of el)))
                   (\<not> rage_fires (rage_kept s now event (selector_of el)) \<and> dead_fires el anc)]
           else [])"
    by (simp add: trackClick_element(2) [OF t] detectRageClick_element(3) [OF t])
qed

text \<open>
  A click on the document, a click on a \<open>progress\<close> element of class \<open>btn\<close> whose
  \<open>value\<close> is a number other than 0 (a dead click is reported, then cancel-click detection
  throws and no \<open>click\<close> event follows), and a click on a bare \<open>div\<close>.
\<close>

theorem click_handler_stops_at_first_exception_witness:
  "trackClick initial_state 0 click_on_document =
     (Inl TypeError, initial_state\<lparr> clickCount := 1 \<rparr>)
   \<and> emitted (snd (trackClick initial_state 0 click_on_document)) = []
   \<and> fst (trackClick initial_state 0 (click_on progress_btn 3 4)) = Inl TypeError
   \<and> emitted (snd (trackClick initial_state 0 (click_on progress_btn 3 4))) =
       [DeadClick ''progress.btn'' 3 4 1]
   \<and> fst (trackClick initial_state 0 (click_on plain_div 3 4)) = Inr ()
   \<and> emitted (snd (trackClick initial_state 0 (click_on plain_div 3 4))) =
       [Click ''div'' ''div'' 3 4 False False]
   \<and> fst (detectFormCancelClick initial_state (click_on progress_btn 3 4)) = Inl TypeError
   \<and> emitted_of ''click'' (snd (trackClick initial_state 0 (click_on progress_btn 3 4))) = []"
proof -
  have thrown: "fst (detectRageClick (initial_state\<lparr> clickCount := clickCount initial_state + 1 \<rparr>) 0
                  click_on_document) = Inl TypeError"
    by (simp add: detectRageClick_def click_on_document_def)
  have init: "emitted initial_state = []" "clickCount initial_state = 0"
    "deadClickCount initial_state = 0" "rageClickCount initial_state = 0"
    "recentClicks initial_state = []"
    by (simp_all add: initial_state_def emitted_def)
  have sel: "selector_of plain_div = ''div''" "tag plain_div = ''div''"
    "selector_of progress_btn = ''progress.btn''"
    by code_simp+
  have facts: "handler_completes plain_div []" "\<not> handler_completes progress_btn []"
    "\<not> dead_fires plain_div []" "dead_fires progress_btn []"
    by code_simp+
  have calm: "\<not> rage_fires (rage_kept initial_state 0 (click_on plain_div 3 4) ''div'')"
    "\<not> rage_fires (rage_kept initial_state 0 (click_on progress_btn 3 4) ''progress.btn'')"
    by (simp_all add: rage_fires_def rage_kept_def init)
  have doc: "trackClick initial_state 0 click_on_document =
     (Inl TypeError, initial_state\<lparr> clickCount := 1 \<rparr>)
   \<and> emitted (snd (trackClick initial_state 0 click_on_document)) = []"
    using click_handler_stops_at_first_exception
      [where s = initial_state and now = 0 and event = click_on_document and e = TypeError]
      thrown
    by (simp add: init emitted_update)
  have prog: "fst (trackClick initial_state 0 (click_on progress_btn 3 4)) = Inl TypeError
   \<and> emitted (snd (trackClick initial_state 0 (click_on progress_btn 3 4))) =
       [DeadClick ''progress.btn'' 3 4 1]"
    using click_handler_stops_at_first_exception
      [where s = initial_state and now = 0 and event = "click_on progress_btn 3 4"
         and el = progress_btn and anc = "[]"]
    by (simp add: init click_on_simps sel facts calm)
  have elem: "fst (trackClick initial_state 0 (click_on plain_div 3 4)) = Inr ()
   \<and> emitted (snd (trackClick initial_state 0 (click_on plain_div 3 4))) =
       [Click ''div'' ''div'' 3 4 False False]"
    using click_handler_stops_at_first_exception
      [where s = initial_state and now = 0 and event = "click_on plain_div 3 4"
         and el = plain_div and anc = "[]"]
    by (simp add: init click_on_simps sel facts calm)
  have cancel: "fst (detectFormCancelClick initial_state (click_on progress_btn 3 4)) = Inl TypeError"
    by code_simp
  have noclick: "emitted_of ''click'' (snd (trackClick initial_state 0 (click_on progress_btn 3 4))) = []"
    using click_handler_stops_at_first_exception
      [where s = initial_state and now = 0 and event = "click_on progress_btn 3 4"
         and e = TypeError] cancel
    by (simp add: emitted_of_def init)
  show ?thesis using doc prog elem cancel noclick by blast
qed

text \<open>
  C10 as stated fails: on a click whose target is the document, rage-click detection throws
  (\<open>getElementSelector\<close> reads \<open>tagName.toLowerCase()\<close> of a node without \<open>tagName\<close>), and
  the handler emits no \<open>click\<close> event and runs no dead-click detection.
\<close>

theorem click_handler_exception_counterexample:
  "fst (detectRageClick (initial_state\<lparr> clickCount := 1 \<rparr>) 0 click_on_document) = Inl TypeError
   \<and> fst (trackClick initial_state 0 click_on_document) = Inl TypeError
   \<and> emitted_of ''click'' (snd (trackClick initial_state 0 click_on_document)) = []
   \<and> emitted (snd (trackClick initial_state 0 click_on_document)) = []"
  by code_simp

subsection \<open>Scroll milestones\<close>

lemma map_filter_append:
  "List.map_filter f (xs @ ys) = List.map_filter f xs @ List.map_filter f ys"
  by (simp add: List.map_filter_def)

lemma trackScroll_emits:
  "emitted (trackScroll s d) = emitted s @
     (case filter (\<lambda>m. lastScrollDepthSent s < m) milestones of
        [] \<Rightarrow> []
      | m # _ \<Rightarrow> if m \<le> max (maxScrollDepth s) d
                 then [ScrollMilestone m (max (maxScrollDepth s) d)] else [])"
  by (auto simp add: trackScroll_def milestones_def emitted_def sendEvent_def max_def)

lemma trackScroll_lastSent:
  "lastScrollDepthSent (trackScroll s d) =
     (case filter (\<lambda>m. lastScrollDepthSent s < m) milestones of
        [] \<Rightarrow> lastScrollDepthSent s
      | m # _ \<Rightarrow> if m \<le> max (maxScrollDepth s) d then m else lastScrollDepthSent s)"
  by (auto simp add: trackScroll_def milestones_def sendEvent_def max_def)

lemma scroll_inv_initial: "scroll_inv initial_state"
  by (simp add: scroll_inv_def initial_state_def milestones_sent_def emitted_def milestones_def)

lemma scroll_inv_trackScroll:
  assumes "scroll_inv s"
  shows "scroll_inv (trackScroll s d)"
proof -
  from assms have "lastScrollDepthSent s \<in> {0, 25, 50, 75, 90, 100}"
    by (simp add: scroll_inv_def milestones_def)
  then consider "lastScrollDepthSent s = 0" | "lastScrollDepthSent s = 25"
    | "lastScrollDepthSent s = 50" | "lastScrollDepthSent s = 75"
    | "lastScrollDepthSent s = 90" | "lastScrollDepthSent s = 100"
    by auto
  then show ?thesis
    using assms
    by cases
      (simp_all add: scroll_inv_def milestones_sent_def trackScroll_emits trackScroll_lastSent
         milestones_def map_filter_append)
qed

lemma scroll_inv_scroll_events:
  "scroll_inv s \<Longrightarrow> scroll_inv (scroll_events s ds)"
  by (induction ds arbitrary: s) (simp_all add: scroll_inv_trackScroll)

text \<open>
  C9 (as amended). A scroll event emits at most one \<open>scroll_milestone\<close>: the lowest
  milestone above the last one sent, when the high-water mark has reached it. So over any
  sequence of scroll events on a fresh page the milestones emitted are an initial segment of
  25, 50, 75, 90, 100: each at most once and in increasing order. A milestone that the
  high-water mark reaches in the same event as a lower unsent one is emitted at a later
  scroll event. Depths 10, 30, 60 give the milestones 25 and then 50.
\<close>

theorem scroll_milestone_lowest_unsent_per_event:
  "emitted (trackScroll s d) = emitted s @
     (case filter (\<lambda>m. lastScrollDepthSent s < m) milestones of
        [] \<Rightarrow> []
      | m # _ \<Rightarrow> if m \<le> max (maxScrollDepth s) d
                 then [ScrollMilestone m (max (maxScrollDepth s) d)] else [])
   \<and> prefix (milestones_sent (scroll_events initial_state ds)) milestones
   \<and> milestones_sent (scroll_events initial_state [10, 30, 60]) = [25, 50]"
proof (intro conjI)
  show "emitted (trackScroll s d) = emitted s @
     (case filter (\<lambda>m. lastScrollDepthSent s < m) milestones of
        [] \<Rightarrow> []
      | m # _ \<Rightarrow> if m \<le> max (maxScrollDepth s) d
                 then [ScrollMilestone m (max (maxScrollDepth s) d)] else [])"
    by (rule trackScroll_emits)
  show "prefix (milestones_sent (scroll_events initial_state ds)) milestones"
    using scroll_inv_scroll_events [OF scroll_inv_initial, of ds]
    by (simp add: scroll_inv_def takeWhile_is_prefix)
  show "milestones_sent (scroll_events initial_state [10, 30, 60]) = [25, 50]"
    by code_simp
qed

theorem scroll_milestone_lowest_unsent_per_event_witness:
  "emitted (trackScroll initial_state 60) = [ScrollMilestone 25 60]
   \<and> emitted (trackScroll (trackScroll initial_state 60) 60) =
       [ScrollMilestone 25 60, ScrollMilestone 50 60]
   \<and> prefix (milestones_sent (scroll_events initial_state [100, 0, 0])) milestones"
proof -
  have a: "emitted initial_state = []" "lastScrollDepthSent initial_state = 0"
    "maxScrollDepth initial_state = 0"
    by (simp_all add: initial_state_def emitted_def)
  have one: "emitted (trackScroll initial_state 60) = [ScrollMilestone 25 60]"
    using scroll_milestone_lowest_unsent_per_event [of initial_state 60 "[100, 0, 0]"]
    by (simp add: a milestones_def)
  have b: "lastScrollDepthSent (trackScroll initial_state 60) = 25"
    "maxScrollDepth (trackScroll initial_state 60) = 60"
    by code_simp+
  have two: "emitted (trackScroll (trackScroll initial_state 60) 60) =
       [ScrollMilestone 25 60, ScrollMilestone 50 60]"
    using scroll_milestone_lowest_unsent_per_event [of "trackScroll initial_state 60" 60 "[]"]
    by (simp add: one b milestones_def)
  have three: "prefix (milestones_sent (scroll_events initial_state [100, 0, 0])) milestones"
    using scroll_milestone_lowest_unsent_per_event [of initial_state 60 "[100, 0, 0]"]
    by blast
  show ?thesis using one two three by blast
qed

text \<open>
  C9 as stated fails: a first scroll event at depth 60 takes the high-water mark past 25 and
  50 at once, but only the milestone 25 is emitted at that event; 50 is not emitted at the
  event on which the high-water mark first reaches it, and is never emitted when no further
  scroll event follows.
\<close>

theorem scroll_milestone_jump_counterexample:
  "maxScrollDepth initial_state < 50 \<and> 50 \<le> maxScrollDepth (trackScroll initial_state 60)
   \<and> emitted (trackScroll initial_state 60) = [ScrollMilestone 25 60]
   \<and> milestones_sent (scroll_events initial_state [60]) = [25]"
  by code_simp

subsection \<open>Auxiliary facts about the form records\<close>



lemma forms_delete_absent: "map_of m k = None \<Longrightarrow> forms_delete m k = m"
proof (induction m)
  case Nil
  then show ?case by (simp add: forms_delete_def)
next
  case (Cons a m)
  then show ?case by (cases a) (auto simp: forms_delete_def split: if_splits)
qed

















subsection \<open>Skipped fields\<close>




subsection \<open>Abandonment\<close>






subsection \<open>Auxiliary facts about double-precision arithmetic\<close>

lemma pow2_pos: "0 < pow2 k"
  by (simp add: pow2_def)

lemma pow2_Suc: "pow2 (k + 1) = 2 * pow2 k"
proof (cases "0 \<le> k")
  case True
  then show ?thesis by (simp add: pow2_def nat_add_distrib)
next
  case False
  then have "nat (- k) = Suc (nat (- (k + 1)))" by simp
  with False show ?thesis by (simp add: pow2_def)
qed

lemma pow2_add: "pow2 (k + l) = pow2 k * pow2 l"
proof -
  have nonneg: "pow2 (k + int n) = pow2 k * pow2 (int n)" for k n
  proof (induction n)
    case 0
    then show ?case by (simp add: pow2_def)
  next
    case (Suc n)
    have "k + int (Suc n) = (k + int n) + 1" by simp
    then have "pow2 (k + int (Suc n)) = pow2 ((k + int n) + 1)" by (rule arg_cong)
    also have "\<dots> = 2 * pow2 (k + int n)" by (rule pow2_Suc)
    also have "\<dots> = pow2 k * (2 * pow2 (int n))" using Suc by simp
    also have "2 * pow2 (int n) = pow2 (int n + 1)" by (simp add: pow2_Suc)
    also have "int n + 1 = int (Suc n)" by simp
    finally show ?case .
  qed
  show ?thesis
  proof (cases "0 \<le> l")
    case True
    then show ?thesis using nonneg [of k "nat l"] by simp
  next
    case False
    then have "pow2 k = pow2 ((k + l) + int (nat (- l)))" by simp
    also have "\<dots> = pow2 (k + l) * pow2 (int (nat (- l)))" by (rule nonneg)
    finally have a: "pow2 k = pow2 (k + l) * pow2 (- l)" using False by simp
    have "pow2 0 = pow2 (l + int (nat (- l)))" using False by simp
    also have "\<dots> = pow2 l * pow2 (int (nat (- l)))" by (rule nonneg)
    finally have "pow2 l * pow2 (- l) = 1" using False by (simp add: pow2_def)
    with a show ?thesis
      by (metis mult.assoc mult.commute mult.right_neutral)
  qed
qed

lemma pow2_mono: "k \<le> l \<Longrightarrow> pow2 k \<le> pow2 l"
proof -
  assume "k \<le> l"
  then have "pow2 l = pow2 k * pow2 (int (nat (l - k)))"
    using pow2_add [of k "l - k"] by simp
  moreover have "1 \<le> pow2 (int (nat (l - k)))" by (simp add: pow2_def)
  ultimately show ?thesis using pow2_pos [of k] by simp
qed

lemma pow2_less_cancel: "pow2 k < pow2 l \<Longrightarrow> k < l"
  using pow2_mono [of l k] by (cases "k < l") auto

lemma halvings_spec: "1 \<le> a \<Longrightarrow> 0 \<le> halvings a \<and> pow2 (halvings a) \<le> a \<and> a < pow2 (halvings a + 1)"
proof (induction a rule: halvings.induct)
  case (1 a)
  show ?case
  proof (cases "a < 2")
    case True
    with "1.prems" show ?thesis by (simp add: halvings.simps [of a] pow2_def)
  next
    case False
    then have "1 \<le> a / 2" by simp
    with "1.IH" False have ih: "0 \<le> halvings (a / 2)" "pow2 (halvings (a / 2)) \<le> a / 2"
      "a / 2 < pow2 (halvings (a / 2) + 1)" by simp_all
    have h: "halvings a = halvings (a / 2) + 1" using False by (simp add: halvings.simps [of a])
    have "pow2 (halvings a) = 2 * pow2 (halvings (a / 2))" unfolding h by (rule pow2_Suc)
    moreover have "pow2 (halvings a + 1) = 2 * pow2 (halvings (a / 2) + 1)" unfolding h by (rule pow2_Suc)
    moreover have "0 \<le> halvings a" using ih(1) by (simp add: h)
    ultimately show ?thesis using ih by simp
  qed
qed

lemma doublings_spec: "0 < a \<Longrightarrow> a < 1 \<Longrightarrow> pow2 (- doublings a) \<le> a \<and> a < pow2 (- doublings a + 1)"
proof (induction a rule: doublings.induct)
  case (1 a)
  show ?case
  proof (cases "1 \<le> 2 * a")
    case True
    then have "doublings (2 * a) = 0" by (simp add: doublings.simps [of "2 * a"])
    then have "doublings a = 1" using "1.prems" by (simp add: doublings.simps [of a])
    with True "1.prems" show ?thesis by (simp add: pow2_def)
  next
    case False
    with "1.prems" "1.IH" have ih: "pow2 (- doublings (2 * a)) \<le> 2 * a"
      "2 * a < pow2 (- doublings (2 * a) + 1)" by simp_all
    have h: "doublings a = doublings (2 * a) + 1" using "1.prems" by (simp add: doublings.simps [of a])
    have "pow2 (- doublings (2 * a)) = 2 * pow2 (- doublings a)"
      using pow2_Suc [of "- doublings a"] by (simp add: h)
    moreover have "pow2 (- doublings (2 * a) + 1) = 2 * pow2 (- doublings a + 1)"
      using pow2_Suc [of "- doublings a + 1"] by (simp add: h)
    ultimately show ?thesis using ih by simp
  qed
qed

lemma floor_log2_spec: "0 < a \<Longrightarrow> pow2 (floor_log2 a) \<le> a \<and> a < pow2 (floor_log2 a + 1)"
  using halvings_spec [of a] doublings_spec [of a] by (simp add: floor_log2_def)

lemma floor_log2_eq:
  assumes "0 < a" "pow2 e \<le> a" "a < pow2 (e + 1)"
  shows "floor_log2 a = e"
proof -
  from floor_log2_spec [OF assms(1)] have s: "pow2 (floor_log2 a) \<le> a" "a < pow2 (floor_log2 a + 1)"
    by simp_all
  from s(1) assms(3) have "pow2 (floor_log2 a) < pow2 (e + 1)" by simp
  then have "floor_log2 a < e + 1" by (rule pow2_less_cancel)
  moreover from assms(2) s(2) have "pow2 e < pow2 (floor_log2 a + 1)" by simp
  then have "e < floor_log2 a + 1" by (rule pow2_less_cancel)
  ultimately show ?thesis by simp
qed

lemma round_half_even_eq:
  assumes "\<bar>q - of_int n\<bar> < 1 / 2"
  shows "round_half_even q = n"
proof (cases "of_int n \<le> q")
  case True
  with assms have "\<lfloor>q\<rfloor> = n" by (intro floor_unique) (simp_all add: abs_less_iff)
  with assms True show ?thesis by (simp add: round_half_even_def abs_less_iff)
next
  case False
  with assms have "\<lfloor>q\<rfloor> = n - 1" by (intro floor_unique) (simp_all add: abs_less_iff)
  with assms False show ?thesis by (simp add: round_half_even_def abs_less_iff)
qed


lemma isqrt_spec: "0 \<le> n \<Longrightarrow> 0 \<le> isqrt n \<and> isqrt n * isqrt n \<le> n \<and> n < (isqrt n + 1) * (isqrt n + 1)"
proof (induction n rule: isqrt.induct)
  case (1 n)
  show ?case
  proof (cases "n < 4")
    case True
    with "1.prems" show ?thesis by (simp add: isqrt.simps [of n])
  next
    case False
    define q where "q = isqrt (n div 4)"
    define m where "m = n div 4"
    from False "1.IH" have ih: "0 \<le> q" "q * q \<le> m" "m < (q + 1) * (q + 1)"
      by (simp_all add: q_def m_def)
    have m: "4 * m \<le> n" "n \<le> 4 * m + 3" by (simp_all add: m_def)
    from ih(3) have up: "m + 1 \<le> q * q + 2 * q + 1" by (simp add: algebra_simps)
    show ?thesis
    proof (cases "(2 * q + 1) * (2 * q + 1) \<le> n")
      case True
      then have r: "isqrt n = 2 * q + 1"
        using False by (simp add: isqrt.simps [of n] q_def Let_def)
      have "n < (2 * q + 1 + 1) * (2 * q + 1 + 1)" using m up by (simp add: algebra_simps)
      with True ih(1) show ?thesis by (simp add: r)
    next
      case no: False
      then have r: "isqrt n = 2 * q"
        using False by (simp add: isqrt.simps [of n] q_def Let_def)
      have "(2 * q) * (2 * q) \<le> n" using m ih(2) by (simp add: algebra_simps)
      with no ih(1) show ?thesis by (simp add: r)
    qed
  qed
qed

lemma square_less_imp_less:
  fixes a b :: "'a :: linordered_idom"
  assumes "a * a < b * b" "0 \<le> b"
  shows "a < b"
  using assms power2_less_imp_less [of a b] by (simp add: power2_eq_square)

lemma to_double_eq:
  assumes "x \<noteq> 0" "pow2 e \<le> \<bar>x\<bar>" "\<bar>x\<bar> < pow2 (e + 1)" "- 1022 \<le> e"
    and "\<bar>\<bar>x\<bar> / pow2 (e - 52) - of_int n\<bar> < 1 / 2"
    and "of_int n * pow2 (e - 52) < pow2 1024"
  shows "to_double x = Finite (if 0 < x then of_int n * pow2 (e - 52) else - (of_int n * pow2 (e - 52)))"
proof -
  from assms(1) have "0 < \<bar>x\<bar>" by simp
  then have "floor_log2 \<bar>x\<bar> = e" using assms(2,3) by (rule floor_log2_eq)
  then have e: "max (floor_log2 \<bar>x\<bar>) (- 1022) = e" using assms(4) by simp
  have r: "round_half_even (\<bar>x\<bar> / pow2 (e - 52)) = n" using assms(5) by (rule round_half_even_eq)
  show ?thesis unfolding to_double_def Let_def e r using assms(1,6) by simp
qed

lemma to_double_of_int:
  assumes "\<bar>k\<bar> < 9007199254740992"
  shows "to_double (of_int k) = Finite (of_int k)"
proof (cases "k = 0")
  case True
  then show ?thesis by (simp add: to_double_def)
next
  case False
  define a :: rat where "a = \<bar>of_int k\<bar>"
  define e where "e = floor_log2 a"
  have a1: "1 \<le> a" using False by (simp add: a_def flip: of_int_abs)
  then have "0 < a" by simp
  from floor_log2_spec [OF this] have s: "pow2 e \<le> a" "a < pow2 (e + 1)" by (simp_all add: e_def)
  have e0: "0 \<le> e" using a1 halvings_spec [of a] by (simp add: e_def floor_log2_def)
  have "a < 9007199254740992" using assms by (simp add: a_def flip: of_int_abs)
  also have "\<dots> = pow2 53" by (simp add: pow2_def)
  finally have a53: "a < pow2 53" .
  with s(1) have "pow2 e < pow2 53" by simp
  then have e53: "e < 53" by (rule pow2_less_cancel)
  define j where "j = \<bar>k\<bar> * 2 ^ nat (52 - e)"
  have "pow2 (e - 52) * pow2 (52 - e) = pow2 0" using pow2_add [of "e - 52" "52 - e"] by simp
  then have inv: "pow2 (e - 52) * 2 ^ nat (52 - e) = 1" using e53 by (simp add: pow2_def)
  have "of_int j * pow2 (e - 52) = a * (pow2 (e - 52) * 2 ^ nat (52 - e))"
    by (simp add: j_def a_def)
  then have m: "of_int j * pow2 (e - 52) = a" by (simp add: inv)
  then have q: "a / pow2 (e - 52) = of_int j" using pow2_pos [of "e - 52"]
    by (simp add: field_simps)
  have "pow2 53 \<le> pow2 1024" by (rule pow2_mono) simp
  with a53 have big: "of_int j * pow2 (e - 52) < pow2 1024" by (simp add: m)
  have "to_double (of_int k) =
      Finite (if 0 < (of_int k :: rat) then of_int j * pow2 (e - 52) else - (of_int j * pow2 (e - 52)))"
    using False s e0 q big by (intro to_double_eq) (simp_all add: a_def)
  then show ?thesis by (simp add: m) (simp add: a_def)
qed

lemma sqrt_round_eq:
  assumes "0 < x" "pow2 (2 * e) \<le> x" "x < pow2 (2 * e + 2)" "0 \<le> n"
    and lower: "(of_int n - 1 / 2) * (of_int n - 1 / 2) < x / pow2 (2 * (e - 52))"
    and upper: "x / pow2 (2 * (e - 52)) < (of_int n + 1 / 2) * (of_int n + 1 / 2)"
  shows "sqrt_round x = of_int n * pow2 (e - 52)"
proof -
  define f where "f = floor_log2 x"
  from floor_log2_spec [OF assms(1)] have s: "pow2 f \<le> x" "x < pow2 (f + 1)" by (simp_all add: f_def)
  from assms(2) s(2) have "pow2 (2 * e) < pow2 (f + 1)" by simp
  then have "2 * e < f + 1" by (rule pow2_less_cancel)
  moreover from s(1) assms(3) have "pow2 f < pow2 (2 * e + 2)" by simp
  then have "f < 2 * e + 2" by (rule pow2_less_cancel)
  ultimately have e: "floor_log2 x div 2 = e" by (simp add: f_def)
  define X where "X = x / pow2 (2 * (e - 52))"
  define r where "r = isqrt \<lfloor>X\<rfloor>"
  have "0 \<le> X" using assms(1) pow2_pos [of "2 * (e - 52)"] by (simp add: X_def)
  then have "0 \<le> \<lfloor>X\<rfloor>" by simp
  from isqrt_spec [OF this] have r: "0 \<le> r" "r * r \<le> \<lfloor>X\<rfloor>" "\<lfloor>X\<rfloor> + 1 \<le> (r + 1) * (r + 1)"
    by (simp_all add: r_def)
  have "(of_int (r * r) :: rat) \<le> of_int \<lfloor>X\<rfloor>" using r(2) by (simp only: of_int_le_iff)
  also have "\<dots> \<le> X" by simp
  finally have lo: "(of_int r :: rat) * of_int r \<le> X" by simp
  have "X < of_int (\<lfloor>X\<rfloor> + 1)" by linarith
  also have "\<dots> \<le> (of_int ((r + 1) * (r + 1)) :: rat)" using r(3) by (simp only: of_int_le_iff)
  finally have hi: "X < (of_int r + 1) * (of_int r + 1)" by simp
  have rn: "r \<le> n"
  proof -
    from lo upper have "(of_int r :: rat) * of_int r < (of_int n + 1 / 2) * (of_int n + 1 / 2)"
      by (simp add: X_def)
    moreover have "(0 :: rat) \<le> of_int n + 1 / 2" using assms(4) by simp
    ultimately have "(of_int r :: rat) < of_int n + 1 / 2" by (rule square_less_imp_less)
    then have "(of_int r :: rat) < of_int (n + 1)" by simp
    then have "r < n + 1" by (simp only: of_int_less_iff)
    then show ?thesis by simp
  qed
  have nr: "n \<le> r + 1"
  proof -
    from lower hi have "(of_int n - 1 / 2 :: rat) * (of_int n - 1 / 2) < (of_int r + 1) * (of_int r + 1)"
      by (simp add: X_def)
    moreover have "(0 :: rat) \<le> of_int r + 1" using r(1) by simp
    ultimately have "(of_int n - 1 / 2 :: rat) < of_int r + 1" by (rule square_less_imp_less)
    then have "(of_int n :: rat) < of_int (r + 2)" by simp
    then have "n < r + 2" by (simp only: of_int_less_iff)
    then show ?thesis by simp
  qed
  define h :: rat where "h = (of_int r + 1 / 2) * (of_int r + 1 / 2)"
  have pick: "(if X < h then r else if X > h then r + 1 else if even r then r else r + 1) = n"
  proof (cases "r = n")
    case True
    with upper show ?thesis by (simp add: h_def X_def)
  next
    case False
    with rn nr have n: "n = r + 1" by simp
    have "h < X" using lower by (simp add: n h_def X_def add.commute)
    then show ?thesis by (simp add: n)
  qed
  have "sqrt_round x = of_int (if X < h then r else if X > h then r + 1 else if even r then r else r + 1) * pow2 (e - 52)"
    unfolding sqrt_round_def e Let_def X_def r_def h_def ..
  then show ?thesis by (simp only: pick)
qed


lemma round_half_even_tie:
  assumes "q = of_int n + 1 / 2"
  shows "round_half_even q = (if even n then n else n + 1)"
proof -
  from assms have "\<lfloor>q\<rfloor> = n" by (intro floor_unique) simp_all
  with assms show ?thesis by (simp add: round_half_even_def)
qed

lemma pow2_inverse: "pow2 (- k) = 1 / pow2 k"
proof -
  have "pow2 (- k) * pow2 k = pow2 0" using pow2_add [of "- k" k] by simp
  then have "pow2 (- k) * pow2 k = 1" by (simp add: pow2_def)
  then show ?thesis using pow2_pos [of k] by (simp add: field_simps)
qed

lemma to_double_rounded:
  assumes "0 < x" "pow2 e \<le> x" "x < pow2 (e + 1)" "- 1022 \<le> e" "e < 1023"
    and "round_half_even (x * pow2 (52 - e)) = n" "of_int n \<le> pow2 53"
  shows "to_double x = Finite (of_int n / pow2 (52 - e))"
proof -
  have "floor_log2 x = e" using assms(1,2,3) by (rule floor_log2_eq)
  then have e: "max (floor_log2 \<bar>x\<bar>) (- 1022) = e" using assms(1,4) by simp
  have inv: "pow2 (e - 52) = 1 / pow2 (52 - e)" using pow2_inverse [of "52 - e"] by simp
  have r: "round_half_even (\<bar>x\<bar> / pow2 (e - 52)) = n" using assms(1,6) by (simp add: inv)
  have "of_int n * pow2 (e - 52) \<le> pow2 53 * pow2 (e - 52)"
    using assms(7) pow2_pos [of "e - 52"] by (simp add: mult_right_mono)
  also have "\<dots> = pow2 (e + 1)" using pow2_add [of 53 "e - 52"] by (simp add: add.commute)
  also have "\<dots> \<le> pow2 1023" using assms(5) by (intro pow2_mono) simp
  also have "\<dots> < pow2 1024" using pow2_Suc [of 1023] pow2_pos [of 1023] by simp
  finally have "\<not> pow2 1024 \<le> of_int n * pow2 (e - 52)" by simp
  then show ?thesis unfolding to_double_def Let_def e r using assms(1) by (simp add: inv)
qed

lemma to_double_nearest:
  assumes "0 < x" "pow2 e \<le> x" "x < pow2 (e + 1)" "- 1022 \<le> e" "e < 1023"
    and "of_int n - 1 / 2 < x * pow2 (52 - e)" "x * pow2 (52 - e) < of_int n + 1 / 2"
    and "of_int n \<le> pow2 53"
  shows "to_double x = Finite (of_int n / pow2 (52 - e))"
proof -
  from assms(6,7) have "\<bar>x * pow2 (52 - e) - of_int n\<bar> < 1 / 2" by linarith
  then have "round_half_even (x * pow2 (52 - e)) = n" by (rule round_half_even_eq)
  with assms(1-5) show ?thesis using assms(8) by (rule to_double_rounded)
qed

lemma to_double_tie:
  assumes "0 < x" "pow2 e \<le> x" "x < pow2 (e + 1)" "- 1022 \<le> e" "e < 1023"
    and "x * pow2 (52 - e) = of_int k + 1 / 2" "of_int k + 1 \<le> pow2 53"
  shows "to_double x = Finite (of_int (if even k then k else k + 1) / pow2 (52 - e))"
proof -
  have "round_half_even (x * pow2 (52 - e)) = (if even k then k else k + 1)"
    using assms(6) by (rule round_half_even_tie)
  with assms(1-5) show ?thesis
  proof (rule to_double_rounded)
    show "of_int (if even k then k else k + 1) \<le> pow2 53" using assms(7) by simp
  qed
qed

subsection \<open>Auxiliary facts about the mouse buffer\<close>

lemma js_number_exact: "\<bar>k\<bar> < 9007199254740992 \<Longrightarrow> js_number k = Finite (of_int k)"
  by (simp add: js_number_def to_double_of_int)

lemma d_sub_exact:
  assumes "\<bar>a\<bar> < 33554432" "\<bar>b\<bar> < 33554432"
  shows "d_sub (js_number a) (js_number b) = Finite (of_int (a - b))"
proof -
  have "d_sub (js_number a) (js_number b) = to_double (of_int (a - b))"
    using assms by (simp add: js_number_exact d_sub_def)
  also have "\<dots> = Finite (of_int (a - b))" using assms by (intro to_double_of_int) simp
  finally show ?thesis .
qed

lemma square_bound:
  fixes i :: int
  assumes "\<bar>i\<bar> < 67108864"
  shows "0 \<le> i * i" "i * i < 4503599627370496"
proof -
  show "0 \<le> i * i" by simp
  have "\<bar>i\<bar> * \<bar>i\<bar> \<le> 67108863 * 67108863" using assms by (intro mult_mono) simp_all
  then show "i * i < 4503599627370496" by simp
qed

lemma d_mul_exact:
  assumes "\<bar>i\<bar> < 67108864"
  shows "d_mul (Finite (of_int i)) (Finite (of_int i)) = Finite (of_int (i * i))"
proof -
  have "d_mul (Finite (of_int i)) (Finite (of_int i)) = to_double (of_int (i * i))" by simp
  also have "\<dots> = Finite (of_int (i * i))"
    using square_bound [OF assms] by (intro to_double_of_int) simp
  finally show ?thesis .
qed

lemma rounded_segment_length_exact:
  assumes "on_screen a" "on_screen b"
  shows "rounded_segment_length a b =
    d_sqrt (Finite (of_int ((m_x b - m_x a) * (m_x b - m_x a) + (m_y b - m_y a) * (m_y b - m_y a))))"
proof -
  define i where "i = m_x b - m_x a"
  define j where "j = m_y b - m_y a"
  have i: "\<bar>i\<bar> < 67108864" and j: "\<bar>j\<bar> < 67108864"
    using assms unfolding on_screen_def i_def j_def by linarith+
  have dx: "d_sub (js_number (m_x b)) (js_number (m_x a)) = Finite (of_int i)"
    and dy: "d_sub (js_number (m_y b)) (js_number (m_y a)) = Finite (of_int j)"
    using assms by (simp_all add: on_screen_def i_def j_def d_sub_exact)
  have "d_add (Finite (of_int (i * i))) (Finite (of_int (j * j))) = to_double (of_int (i * i + j * j))"
    by simp
  also have "\<dots> = Finite (of_int (i * i + j * j))"
    using square_bound [OF i] square_bound [OF j] by (intro to_double_of_int) simp
  finally have "d_add (d_mul (Finite (of_int i)) (Finite (of_int i)))
      (d_mul (Finite (of_int j)) (Finite (of_int j))) = Finite (of_int (i * i + j * j))"
    by (simp only: d_mul_exact [OF i] d_mul_exact [OF j])
  then show ?thesis
    unfolding rounded_segment_length_def Let_def dx dy by (simp only: i_def j_def)
qed

lemma segment_direction_exact:
  assumes "on_screen a" "on_screen b"
  shows "segment_direction a b =
    (if 0 < m_x b - m_x a then ''R'' else ''L'') @ (if 0 < m_y b - m_y a then ''D'' else ''U'')"
  using assms by (simp add: segment_direction_def direction_of_def on_screen_def d_sub_exact)

lemma thrash_loop_computes:
  "fst (thrash_loop ms (t, c, ld)) =
     foldl d_add t (map (\<lambda>(a, b). rounded_segment_length a b) (zip ms (tl ms))) \<and>
   fst (snd (thrash_loop ms (t, c, ld))) = c + reversals (opt_list ld @ segment_directions ms)"
proof (induction ms "(t, c, ld)" arbitrary: t c ld rule: thrash_loop.induct)
  case (1 prv cur rest totalDistance changes lastDirection)
  show ?case
    using 1 [OF refl refl refl]
    by (cases lastDirection)
      (simp_all add: Let_def rounded_segment_length_def segment_directions_def
        segment_direction_def reversals_def opt_list_def)
qed (simp_all add: segment_directions_def reversals_def opt_list_def split: option.splits)

lemma path_length_eq: "path_length ms = accumulated_distance ms"
  using thrash_loop_computes [of ms "Finite 0" 0 None]
  by (simp add: path_length_def accumulated_distance_def)

lemma direction_changes_eq: "direction_changes ms = direction_reversals ms"
  using thrash_loop_computes [of ms "Finite 0" 0 None]
  by (simp add: direction_changes_def direction_reversals_def opt_list_def)

lemma emitted_detectMouseThrashing:
  "emitted (snd (detectMouseThrashing s now)) = emitted s @
     (if 10 \<le> length (thrash_window (mouseMovements s) now) \<and>
         d_greater (accumulated_distance (thrash_window (mouseMovements s) now)) (Finite 500) \<and>
         4 \<le> direction_reversals (thrash_window (mouseMovements s) now)
      then [MouseThrash (math_round (accumulated_distance (thrash_window (mouseMovements s) now)))
              (direction_reversals (thrash_window (mouseMovements s) now))
              (now - m_time (thrash_window (mouseMovements s) now ! 0))
              (length (thrash_window (mouseMovements s) now))]
      else [])"
  by (simp add: detectMouseThrashing_def Let_def thrash_window_def path_length_eq
      direction_changes_eq emitted_sendEvent emitted_update not_less)

lemma fst_detectMouseThrashing:
  "fst (detectMouseThrashing s now) \<longleftrightarrow>
     10 \<le> length (thrash_window (mouseMovements s) now) \<and>
     d_greater (accumulated_distance (thrash_window (mouseMovements s) now)) (Finite 500) \<and>
     4 \<le> direction_reversals (thrash_window (mouseMovements s) now)"
  by (simp add: detectMouseThrashing_def Let_def thrash_window_def path_length_eq
      direction_changes_eq not_less)

lemma buffer_detectMouseThrashing:
  "mouseMovements (snd (detectMouseThrashing s now)) =
     (if fst (detectMouseThrashing s now) then [] else thrash_window (mouseMovements s) now)"
  by (simp add: detectMouseThrashing_def Let_def thrash_window_def sendEvent_fields)

lemma trackMouseMove_throttled: "throttled s now \<Longrightarrow> trackMouseMove s now now2 event = s"
  by (simp add: trackMouseMove_def throttled_def)

lemma trackMouseMove_accepted:
  assumes "\<not> throttled s now"
  shows "emitted (trackMouseMove s now now2 event) =
           emitted (snd (detectMouseThrashing (s\<lparr> mouseMovements := accepted_buffer s now event \<rparr>) now2))"
    and "mouseMovements (trackMouseMove s now now2 event) =
           mouseMovements (snd (detectMouseThrashing (s\<lparr> mouseMovements := accepted_buffer s now event \<rparr>) now2))"
  using assms
  by (auto simp add: trackMouseMove_def throttled_def accepted_buffer_def Let_def emitted_update)

lemma sorted_wrt_last:
  assumes "sorted_wrt R buf" "a \<in> set buf"
  shows "a = last buf \<or> R a (last buf)"
proof -
  from assms(2) have ne: "buf \<noteq> []" by auto
  then have "buf = butlast buf @ [last buf]" by simp
  then have "sorted_wrt R (butlast buf @ [last buf])" "a \<in> set (butlast buf @ [last buf])"
    using assms by simp_all
  then show ?thesis by (auto simp: sorted_wrt_append)
qed

lemma mouse_inv_accepted:
  assumes inv: "mouse_inv (mouseMovements s)" and acc: "\<not> throttled s now" and clock: "now \<le> now2"
  shows "mouse_inv (thrash_window (accepted_buffer s now event) now2)"
proof -
  let ?R = "\<lambda>a b. 50 \<le> m_time b - m_time a"
  let ?new = "\<lparr> m_time = now, m_x = mouseX event, m_y = mouseY event \<rparr>"
  let ?buf = "mouseMovements s"
  have before: "50 \<le> now - m_time a" if "a \<in> set ?buf" for a
  proof -
    from that have ne: "?buf \<noteq> []" by auto
    with acc have l: "50 \<le> now - m_time (last ?buf)" by (simp add: throttled_def)
    from inv that have "a = last ?buf \<or> ?R a (last ?buf)"
      by (intro sorted_wrt_last) (simp_all add: mouse_inv_def)
    with l show ?thesis by auto
  qed
  have "sorted_wrt ?R (?buf @ [?new])"
    using inv before by (simp add: sorted_wrt_append mouse_inv_def)
  then have sorted: "sorted_wrt ?R (thrash_window (accepted_buffer s now event) now2)"
    unfolding thrash_window_def accepted_buffer_def by (intro sorted_wrt_filter)
  have span: "m_time b - m_time a < 1000"
    if a: "a \<in> set (thrash_window (accepted_buffer s now event) now2)"
      and b: "b \<in> set (thrash_window (accepted_buffer s now event) now2)" for a b
  proof -
    from a have a': "a \<in> set ?buf \<or> a = ?new" and a2: "now2 - m_time a < 1000"
      by (auto simp: thrash_window_def accepted_buffer_def split: if_splits)
    from b have b': "b \<in> set ?buf \<or> b = ?new"
      by (auto simp: thrash_window_def accepted_buffer_def split: if_splits)
    from a' b' consider "a \<in> set ?buf" "b \<in> set ?buf" | "b = ?new" | "a = ?new" "b \<in> set ?buf"
      by blast
    then show ?thesis
    proof cases
      case 1
      with inv show ?thesis by (simp add: mouse_inv_def)
    next
      case 2
      with a2 clock show ?thesis by simp
    next
      case 3
      with before [of b] show ?thesis by simp
    qed
  qed
  from sorted span show ?thesis by (simp add: mouse_inv_def)
qed

lemma mouse_inv_trackMouseMove:
  assumes "mouse_inv (mouseMovements s)" "now \<le> now2"
  shows "mouse_inv (mouseMovements (trackMouseMove s now now2 event))"
proof (cases "throttled s now")
  case True
  with assms show ?thesis by (simp add: trackMouseMove_throttled)
next
  case False
  show ?thesis
    using mouse_inv_accepted [OF assms(1) False assms(2), of event]
    by (simp add: trackMouseMove_accepted(2) [OF False] buffer_detectMouseThrashing mouse_inv_def)
qed

lemma age_trackMouseMove:
  assumes inv: "mouse_inv (mouseMovements s)" and m: "m \<in> set (mouseMovements (trackMouseMove s now now2 event))"
  shows "now - m_time m < 2000"
proof (cases "throttled s now")
  case True
  then have ne: "mouseMovements s \<noteq> []" and l: "now - m_time (last (mouseMovements s)) < 50"
    by (simp_all add: throttled_def)
  from m True have "m \<in> set (mouseMovements s)" by (simp add: trackMouseMove_throttled)
  moreover from ne have "last (mouseMovements s) \<in> set (mouseMovements s)" by simp
  ultimately have "m_time (last (mouseMovements s)) - m_time m < 1000"
    using inv by (simp add: mouse_inv_def)
  with l show ?thesis by simp
next
  case False
  from m have "m \<in> set (accepted_buffer s now event)"
    by (auto simp: trackMouseMove_accepted(2) [OF False] buffer_detectMouseThrashing
        thrash_window_def split: if_splits)
  then show ?thesis by (auto simp: accepted_buffer_def)
qed

lemma mouse_events_append:
  "mouse_events s (evs @ evs') = mouse_events (mouse_events s evs) evs'"
  by (induction evs arbitrary: s) auto

lemma mouse_inv_mouse_events:
  "mouse_inv (mouseMovements s) \<Longrightarrow> \<forall>e \<in> set evs. fst e \<le> fst (snd e) \<Longrightarrow>
   mouse_inv (mouseMovements (mouse_events s evs))"
proof (induction evs arbitrary: s)
  case Nil
  then show ?case by simp
next
  case (Cons e evs)
  obtain now now2 event where e: "e = (now, now2, event)" by (cases e)
  with Cons.prems have "now \<le> now2" by simp
  then have "mouse_inv (mouseMovements (trackMouseMove s now now2 event))"
    using Cons.prems(1) by (intro mouse_inv_trackMouseMove)
  then show ?case using Cons by (simp add: e)
qed

lemma sorted_wrt_consecutive:
  "sorted_wrt R buf \<Longrightarrow> Suc i < length buf \<Longrightarrow> R (buf ! i) (buf ! Suc i)"
  by (simp add: sorted_wrt_iff_nth_less)


lemma to_double_numeral:
  "(numeral w :: int) < 9007199254740992 \<Longrightarrow> to_double (numeral w) = Finite (numeral w)"
  using to_double_of_int [of "numeral w"] by simp

lemma floor_add_half: "\<lfloor>(of_int k :: rat) + 1 / 2\<rfloor> = k"
  by (rule floor_unique) simp_all

lemma math_round_numeral: "math_round (Finite (numeral w)) = Finite (numeral w)"
proof -
  have "\<lfloor>(of_int (numeral w) :: rat) + 1 / 2\<rfloor> = numeral w" by (rule floor_add_half)
  then have f: "\<lfloor>(numeral w :: rat) + 1 / 2\<rfloor> = numeral w" by (simp only: of_int_numeral)
  show ?thesis unfolding math_round.simps f by simp
qed

lemma zigzag_root: "sqrt_round 10000 = 100"
  using sqrt_round_eq [of 10000 6 7036874417766400] by (simp add: pow2_def)

lemma zigzag_10:
  "zigzag 10 =
     [\<lparr> m_time = 0, m_x = 0, m_y = 0 \<rparr>, \<lparr> m_time = 50, m_x = 100, m_y = 0 \<rparr>,
      \<lparr> m_time = 100, m_x = 0, m_y = 0 \<rparr>, \<lparr> m_time = 150, m_x = 100, m_y = 0 \<rparr>,
      \<lparr> m_time = 200, m_x = 0, m_y = 0 \<rparr>, \<lparr> m_time = 250, m_x = 100, m_y = 0 \<rparr>,
      \<lparr> m_time = 300, m_x = 0, m_y = 0 \<rparr>, \<lparr> m_time = 350, m_x = 100, m_y = 0 \<rparr>,
      \<lparr> m_time = 400, m_x = 0, m_y = 0 \<rparr>, \<lparr> m_time = 450, m_x = 100, m_y = 0 \<rparr>]"
  by code_simp

lemma zigzag_10_measures:
  "thrash_window (zigzag 10) 450 = zigzag 10"
  "length (zigzag 10) = 10"
  "accumulated_distance (zigzag 10) = Finite 900"
  "direction_reversals (zigzag 10) = 8"
  "m_time (zigzag 10 ! 0) = 0"
  unfolding zigzag_10
  by (simp_all add: thrash_window_def accumulated_distance_def rounded_segment_length_exact
      on_screen_def zigzag_root to_double_numeral direction_reversals_def segment_directions_def
      segment_direction_exact reversals_def)

text \<open>
  The jitter path: the rounded square roots of the nine squared segment lengths, the sums
  that the accumulation goes through, and upper bounds of the square roots in the reals.
\<close>

lemma jitter_path_samples:
  "jitter_path =
     [\<lparr> m_time = 0, m_x = 200, m_y = 200 \<rparr>, \<lparr> m_time = 50, m_x = 393, m_y = 200 \<rparr>,
      \<lparr> m_time = 100, m_x = 388, m_y = 174 \<rparr>, \<lparr> m_time = 150, m_x = 392, m_y = 207 \<rparr>,
      \<lparr> m_time = 200, m_x = 379, m_y = 185 \<rparr>, \<lparr> m_time = 250, m_x = 404, m_y = 222 \<rparr>,
      \<lparr> m_time = 300, m_x = 388, m_y = 176 \<rparr>, \<lparr> m_time = 350, m_x = 390, m_y = 238 \<rparr>,
      \<lparr> m_time = 400, m_x = 380, m_y = 221 \<rparr>, \<lparr> m_time = 450, m_x = 398, m_y = 264 \<rparr>]"
  by code_simp

lemma jitter_root_1: "sqrt_round 37249 = 193"
  using sqrt_round_eq [of 37249 7 6790583813144576] by (simp add: pow2_def)

lemma jitter_root_2: "sqrt_round 701 = 3726222682640535 / 140737488355328"
  using sqrt_round_eq [of 701 4 7452445365281070] by (simp add: pow2_def)

lemma jitter_root_3: "sqrt_round 1105 = 4678330887674099 / 140737488355328"
  using sqrt_round_eq [of 1105 5 4678330887674099] by (simp add: pow2_def)

lemma jitter_root_4: "sqrt_round 653 = 7192773465208995 / 281474976710656"
  using sqrt_round_eq [of 653 4 7192773465208995] by (simp add: pow2_def)

lemma jitter_root_5: "sqrt_round 1994 = 6284523769814287 / 140737488355328"
  using sqrt_round_eq [of 1994 5 6284523769814287] by (simp add: pow2_def)

lemma jitter_root_6: "sqrt_round 2372 = 1713590900181523 / 35184372088832"
  using sqrt_round_eq [of 2372 5 6854363600726092] by (simp add: pow2_def)

lemma jitter_root_7: "sqrt_round 3848 = 8730263016583309 / 140737488355328"
  using sqrt_round_eq [of 3848 5 8730263016583309] by (simp add: pow2_def)

lemma jitter_root_8: "sqrt_round 389 = 2775777153251357 / 140737488355328"
  using sqrt_round_eq [of 389 4 5551554306502714] by (simp add: pow2_def)

lemma jitter_root_9: "sqrt_round 2173 = 6560541081791509 / 140737488355328"
  using sqrt_round_eq [of 2173 5 6560541081791509] by (simp add: pow2_def)

lemma jitter_sum_2: "d_add (Finite 193) (Finite (3726222682640535 / 140737488355328)) = Finite (3861069741902355 / 17592186044416)"
  using to_double_nearest [of "193 + (3726222682640535 / 140737488355328)" 7 7722139483804710] by (simp add: pow2_def)

lemma jitter_sum_3: "d_add (Finite (3861069741902355 / 17592186044416)) (Finite (4678330887674099 / 140737488355328)) = Finite (8891722205723235 / 35184372088832)"
  using to_double_nearest [of "(3861069741902355 / 17592186044416) + (4678330887674099 / 140737488355328)" 7 8891722205723235] by (simp add: pow2_def)

lemma jitter_sum_4: "d_add (Finite (8891722205723235 / 35184372088832)) (Finite (7192773465208995 / 281474976710656)) = Finite (1223852361109295 / 4398046511104)"
  using to_double_nearest [of "(8891722205723235 / 35184372088832) + (7192773465208995 / 281474976710656)" 8 4895409444437180] by (simp add: pow2_def)

lemma jitter_sum_5: "d_add (Finite (1223852361109295 / 4398046511104)) (Finite (6284523769814287 / 140737488355328)) = Finite (2840487457831983 / 8796093022208)"
  using to_double_nearest [of "(1223852361109295 / 4398046511104) + (6284523769814287 / 140737488355328)" 8 5680974915663966] by (simp add: pow2_def)

lemma jitter_sum_6: "d_add (Finite (2840487457831983 / 8796093022208)) (Finite (1713590900181523 / 35184372088832)) = Finite (817221295719341 / 2199023255552)"
  using to_double_tie [of "(2840487457831983 / 8796093022208) + (1713590900181523 / 35184372088832)" 8 6537770365754727] by (simp add: pow2_def)

lemma jitter_sum_7: "d_add (Finite (817221295719341 / 2199023255552)) (Finite (8730263016583309 / 140737488355328)) = Finite (3814526621413821 / 8796093022208)"
  using to_double_nearest [of "(817221295719341 / 2199023255552) + (8730263016583309 / 140737488355328)" 8 7629053242827642] by (simp add: pow2_def)

lemma jitter_sum_8: "d_add (Finite (3814526621413821 / 8796093022208)) (Finite (2775777153251357 / 140737488355328)) = Finite (3988012693492031 / 8796093022208)"
  using to_double_nearest [of "(3814526621413821 / 8796093022208) + (2775777153251357 / 140737488355328)" 8 7976025386984062] by (simp add: pow2_def)

lemma jitter_sum_9: "d_add (Finite (3988012693492031 / 8796093022208)) (Finite (6560541081791509 / 140737488355328)) = Finite (8796093022208001 / 17592186044416)"
  using to_double_nearest [of "(3988012693492031 / 8796093022208) + (6560541081791509 / 140737488355328)" 8 8796093022208001] by (simp add: pow2_def)

lemma jitter_bound_2: "sqrt 701 < 5295280917949490619 / 200000000000000000"
  by (rule real_less_lsqrt) (simp_all add: power2_eq_square)

lemma jitter_bound_3: "sqrt 1105 < 6648308055437864561 / 200000000000000000"
  by (rule real_less_lsqrt) (simp_all add: power2_eq_square)

lemma jitter_bound_4: "sqrt 653 < 25553864678361275223 / 1000000000000000000"
  by (rule real_less_lsqrt) (simp_all add: power2_eq_square)

lemma jitter_bound_5: "sqrt 1994 < 44654227123532213253 / 1000000000000000000"
  by (rule real_less_lsqrt) (simp_all add: power2_eq_square)

lemma jitter_bound_6: "sqrt 2372 < 760987228867870029 / 15625000000000000"
  by (rule real_less_lsqrt) (simp_all add: power2_eq_square)

lemma jitter_bound_7: "sqrt 3848 < 3877015604817705657 / 62500000000000000"
  by (rule real_less_lsqrt) (simp_all add: power2_eq_square)

lemma jitter_bound_8: "sqrt 389 < 19723082923316019969 / 1000000000000000000"
  by (rule real_less_lsqrt) (simp_all add: power2_eq_square)

lemma jitter_bound_9: "sqrt 2173 < 46615448083226659037 / 1000000000000000000"
  by (rule real_less_lsqrt) (simp_all add: power2_eq_square)

lemma jitter_segments:
  "map (\<lambda>(a, b). rounded_segment_length a b) (zip jitter_path (tl jitter_path)) =
     [Finite 193, Finite (3726222682640535 / 140737488355328),
      Finite (4678330887674099 / 140737488355328), Finite (7192773465208995 / 281474976710656),
      Finite (6284523769814287 / 140737488355328), Finite (1713590900181523 / 35184372088832),
      Finite (8730263016583309 / 140737488355328), Finite (2775777153251357 / 140737488355328),
      Finite (6560541081791509 / 140737488355328)]"
  unfolding jitter_path_samples
  by (simp add: rounded_segment_length_exact on_screen_def jitter_root_1 jitter_root_2
      jitter_root_3 jitter_root_4 jitter_root_5 jitter_root_6 jitter_root_7 jitter_root_8
      jitter_root_9)

lemma jitter_sum_1: "d_add (Finite 0) (Finite 193) = Finite 193"
  by (simp add: to_double_numeral)

lemma jitter_accumulated:
  "accumulated_distance jitter_path = Finite (8796093022208001 / 17592186044416)"
  unfolding accumulated_distance_def jitter_segments
  by (simp only: foldl.simps jitter_sum_1 jitter_sum_2 jitter_sum_3 jitter_sum_4 jitter_sum_5
      jitter_sum_6 jitter_sum_7 jitter_sum_8 jitter_sum_9)

lemma jitter_rounded: "math_round (Finite (8796093022208001 / 17592186044416)) = Finite 500"
proof -
  have f: "\<lfloor>(8796093022208001 / 17592186044416 :: rat) + 1 / 2\<rfloor> = 500"
    by (rule floor_unique) simp_all
  show ?thesis unfolding math_round.simps f by simp
qed

lemma jitter_measures:
  "thrash_window jitter_path 450 = jitter_path"
  "length jitter_path = 10"
  "direction_reversals jitter_path = 8"
  "m_time (jitter_path ! 0) = 0"
  unfolding jitter_path_samples
  by (simp_all add: thrash_window_def direction_reversals_def segment_directions_def
      segment_direction_exact on_screen_def reversals_def)

lemma jitter_root_exact: "sqrt 37249 = 193"
proof -
  have "sqrt (193 * 193) = \<bar>193 :: real\<bar>" by (rule real_sqrt_abs2)
  then show ?thesis by simp
qed

lemma jitter_euclidean: "euclidean_path jitter_path < 500"
proof -
  have "euclidean_path jitter_path =
      sqrt 37249 + sqrt 701 + sqrt 1105 + sqrt 653 + sqrt 1994 + sqrt 2372 + sqrt 3848 +
      sqrt 389 + sqrt 2173"
    unfolding jitter_path_samples by (simp add: euclidean_path_def segment_length_def)
  then show ?thesis
    using jitter_bound_2 jitter_bound_3 jitter_bound_4 jitter_bound_5 jitter_bound_6
      jitter_bound_7 jitter_bound_8 jitter_bound_9
    by (simp add: jitter_root_exact)
qed

lemma jitter_buffer:
  "mouse_events initial_state (moves_along (butlast jitter_path)) =
     initial_state\<lparr> mouseMovements := butlast jitter_path, lastMousePosition := (380, 221) \<rparr>"
  unfolding jitter_path_samples
  by (simp add: moves_along_def trackMouseMove_def detectMouseThrashing_def initial_state_def
      move_to_def Let_def)

subsection \<open>Mouse thrashing\<close>

text \<open>
  C7 (as amended). \<open>mouse_thrash\<close> is emitted only when the samples of the last 1000 ms
  are at least 10, the distance accumulated over their consecutive pairs in double-precision
  arithmetic (each segment the rounded square root of the sum of the squared differences,
  each addition rounded) exceeds 500px and their direction changes are at least 4:
  \<open>detectMouseThrashing\<close> emits exactly one \<open>mouse_thrash\<close> when the three hold and
  nothing when one of them fails, and a mousemove handler that emits a \<open>mouse_thrash\<close>
  has accepted its sample and found the three to hold of the buffer it then had.
\<close>

theorem mouse_thrash_only_above_thresholds:
  "emitted (snd (detectMouseThrashing s now)) = emitted s @
     (if 10 \<le> length (thrash_window (mouseMovements s) now) \<and>
         d_greater (accumulated_distance (thrash_window (mouseMovements s) now)) (Finite 500) \<and>
         4 \<le> direction_reversals (thrash_window (mouseMovements s) now)
      then [MouseThrash (math_round (accumulated_distance (thrash_window (mouseMovements s) now)))
              (direction_reversals (thrash_window (mouseMovements s) now))
              (now - m_time (thrash_window (mouseMovements s) now ! 0))
              (length (thrash_window (mouseMovements s) now))]
      else [])
   \<and> (emitted_of ''mouse_thrash'' (trackMouseMove s now now2 event) \<noteq> emitted_of ''mouse_thrash'' s \<longrightarrow>
        \<not> throttled s now \<and>
        10 \<le> length (thrash_window (accepted_buffer s now event) now2) \<and>
        d_greater (accumulated_distance (thrash_window (accepted_buffer s now event) now2)) (Finite 500) \<and>
        4 \<le> direction_reversals (thrash_window (accepted_buffer s now event) now2))"
proof (intro conjI impI)
  show "emitted (snd (detectMouseThrashing s now)) = emitted s @
     (if 10 \<le> length (thrash_window (mouseMovements s) now) \<and>
         d_greater (accumulated_distance (thrash_window (mouseMovements s) now)) (Finite 500) \<and>
         4 \<le> direction_reversals (thrash_window (mouseMovements s) now)
      then [MouseThrash (math_round (accumulated_distance (thrash_window (mouseMovements s) now)))
              (direction_reversals (thrash_window (mouseMovements s) now))
              (now - m_time (thrash_window (mouseMovements s) now ! 0))
              (length (thrash_window (mouseMovements s) now))]
      else [])"
    by (rule emitted_detectMouseThrashing)
next
  assume changed: "emitted_of ''mouse_thrash'' (trackMouseMove s now now2 event) \<noteq> emitted_of ''mouse_thrash'' s"
  show acc: "\<not> throttled s now"
    using changed by (auto simp: trackMouseMove_throttled)
  let ?s1 = "s\<lparr> mouseMovements := accepted_buffer s now event \<rparr>"
  have "emitted (trackMouseMove s now now2 event) \<noteq> emitted s"
    using changed by (auto simp: emitted_of_def)
  then have "emitted (snd (detectMouseThrashing ?s1 now2)) \<noteq> emitted ?s1"
    by (simp add: trackMouseMove_accepted(1) [OF acc] emitted_update)
  then have "10 \<le> length (thrash_window (accepted_buffer s now event) now2) \<and>
        d_greater (accumulated_distance (thrash_window (accepted_buffer s now event) now2)) (Finite 500) \<and>
        4 \<le> direction_reversals (thrash_window (accepted_buffer s now event) now2)"
    by (simp add: emitted_detectMouseThrashing split: if_splits)
  then show "10 \<le> length (thrash_window (accepted_buffer s now event) now2)"
    and "d_greater (accumulated_distance (thrash_window (accepted_buffer s now event) now2)) (Finite 500)"
    and "4 \<le> direction_reversals (thrash_window (accepted_buffer s now event) now2)"
    by simp_all
qed

theorem mouse_thrash_only_above_thresholds_witness:
  "emitted (snd (detectMouseThrashing (initial_state\<lparr> mouseMovements := zigzag 10 \<rparr>) 450)) =
     [MouseThrash (Finite 900) 8 450 10]
   \<and> emitted (snd (detectMouseThrashing (initial_state\<lparr> mouseMovements := zigzag 9 \<rparr>) 450)) = []
   \<and> emitted_of ''mouse_thrash''
       (trackMouseMove (initial_state\<lparr> mouseMovements := zigzag 9 \<rparr>) 450 450 (move_to 100 0)) =
     [MouseThrash (Finite 900) 8 450 10]
   \<and> 10 \<le> length (thrash_window
        (accepted_buffer (initial_state\<lparr> mouseMovements := zigzag 9 \<rparr>) 450 (move_to 100 0)) 450)
   \<and> d_greater (accumulated_distance (thrash_window
        (accepted_buffer (initial_state\<lparr> mouseMovements := zigzag 9 \<rparr>) 450 (move_to 100 0)) 450))
        (Finite 500)"
proof -
  define s9 where "s9 = initial_state\<lparr> mouseMovements := zigzag 9 \<rparr>"
  define s10 where "s10 = initial_state\<lparr> mouseMovements := zigzag 10 \<rparr>"
  have z9: "zigzag 10 = zigzag 9 @ [\<lparr> m_time = 450, m_x = 100, m_y = 0 \<rparr>]"
    "length (zigzag 9) = 9" "thrash_window (zigzag 9) 450 = zigzag 9"
    "m_time (last (zigzag 9)) = 400" "zigzag 9 \<noteq> []"
    by code_simp+
  have s: "mouseMovements s10 = zigzag 10" "emitted s10 = []"
    "mouseMovements s9 = zigzag 9" "emitted s9 = []" "emitted_of ''mouse_thrash'' s9 = []"
    by (simp_all add: s9_def s10_def initial_state_def emitted_def emitted_of_def)
  have one: "emitted (snd (detectMouseThrashing s10 450)) = [MouseThrash (Finite 900) 8 450 10]"
    using mouse_thrash_only_above_thresholds [where s = s10 and now = 450]
    by (simp add: s zigzag_10_measures math_round_numeral)
  have two: "emitted (snd (detectMouseThrashing s9 450)) = []"
    using mouse_thrash_only_above_thresholds [where s = s9 and now = 450]
    by (simp add: s z9)
  have acc: "\<not> throttled s9 450"
    by (simp add: throttled_def s z9)
  have z9x: "zigzag 9 =
     [\<lparr> m_time = 0, m_x = 0, m_y = 0 \<rparr>, \<lparr> m_time = 50, m_x = 100, m_y = 0 \<rparr>,
      \<lparr> m_time = 100, m_x = 0, m_y = 0 \<rparr>, \<lparr> m_time = 150, m_x = 100, m_y = 0 \<rparr>,
      \<lparr> m_time = 200, m_x = 0, m_y = 0 \<rparr>, \<lparr> m_time = 250, m_x = 100, m_y = 0 \<rparr>,
      \<lparr> m_time = 300, m_x = 0, m_y = 0 \<rparr>, \<lparr> m_time = 350, m_x = 100, m_y = 0 \<rparr>,
      \<lparr> m_time = 400, m_x = 0, m_y = 0 \<rparr>]"
    by code_simp
  have buf: "accepted_buffer s9 450 (move_to 100 0) = zigzag 10"
    unfolding accepted_buffer_def s move_to_def zigzag_10 z9x by simp
  have three: "emitted_of ''mouse_thrash'' (trackMouseMove s9 450 450 (move_to 100 0)) =
     [MouseThrash (Finite 900) 8 450 10]"
    by (simp add: emitted_of_def trackMouseMove_accepted(1) [OF acc] emitted_detectMouseThrashing
        buf zigzag_10_measures math_round_numeral emitted_update s)
  have four: "10 \<le> length (thrash_window (accepted_buffer s9 450 (move_to 100 0)) 450) \<and>
      d_greater (accumulated_distance (thrash_window (accepted_buffer s9 450 (move_to 100 0)) 450))
        (Finite 500)"
    using mouse_thrash_only_above_thresholds
      [where s = s9 and now = 450 and ?now2.0 = 450 and event = "move_to 100 0"] three
    by (simp add: s)
  show ?thesis
    using one two three four unfolding s9_def s10_def by blast
qed

text \<open>
  The claim as worded, with the Euclidean distance of the path, does not hold: after the
  ten mousemove events of the jitter path on a fresh page the tracker has emitted a
  \<open>mouse_thrash\<close>, on a buffer that is the whole path, while the length of the path is
  less than 500. In the loop the nine rounded square roots accumulate to \<open>500 + 2 ^ - 44\<close>.
\<close>

theorem mouse_thrash_rounding_counterexample:
  "emitted (mouse_events initial_state (moves_along jitter_path)) =
     [MouseThrash (Finite 500) 8 450 10]
   \<and> accepted_buffer (mouse_events initial_state (moves_along (butlast jitter_path))) 450
       (move_to 398 264) = jitter_path
   \<and> thrash_window jitter_path 450 = jitter_path
   \<and> path_length jitter_path = Finite (500 + 1 / 2 ^ 44)
   \<and> direction_changes jitter_path = 8
   \<and> euclidean_path jitter_path < 500"
proof -
  define s9 where "s9 = mouse_events initial_state (moves_along (butlast jitter_path))"
  have s9: "mouseMovements s9 = butlast jitter_path" "emitted s9 = []"
    unfolding s9_def jitter_buffer by (simp_all add: emitted_def initial_state_def)
  have split: "moves_along jitter_path =
      moves_along (butlast jitter_path) @ [(450, 450, move_to 398 264)]"
    unfolding jitter_path_samples by (simp add: moves_along_def)
  have acc: "\<not> throttled s9 450"
    unfolding throttled_def s9 jitter_path_samples by simp
  have buf: "accepted_buffer s9 450 (move_to 398 264) = jitter_path"
    unfolding accepted_buffer_def s9 jitter_path_samples by (simp add: move_to_def)
  have total: "path_length jitter_path = Finite (500 + 1 / 2 ^ 44)"
    "direction_changes jitter_path = 8"
    by (simp_all add: path_length_eq jitter_accumulated direction_changes_eq jitter_measures)
  have "emitted (trackMouseMove s9 450 450 (move_to 398 264)) =
      [MouseThrash (Finite 500) 8 450 10]"
    by (simp add: trackMouseMove_accepted(1) [OF acc] emitted_detectMouseThrashing buf
        jitter_measures jitter_accumulated jitter_rounded emitted_update s9)
  then have "emitted (mouse_events initial_state (moves_along jitter_path)) =
      [MouseThrash (Finite 500) 8 450 10]"
    by (simp add: split mouse_events_append s9_def)
  then show ?thesis
    using buf total jitter_measures(1) jitter_euclidean unfolding s9_def by blast
qed

subsection \<open>The mouse buffer\<close>

text \<open>
  C6 (as amended). On a fresh page, after any burst of mousemove events whose handlers read
  a clock that does not run backwards between their two readings: every sample in the
  buffer is less than 2000 ms old at the last event, any two consecutive samples are at
  least 50 ms apart, and the whole buffer spans less than 1000 ms. Samples do not stay for
  2000 ms: the thrash detector prunes the same buffer to the last 1000 ms on every accepted
  sample and empties it when it fires.
\<close>

theorem mouse_buffer_age_and_spacing:
  "(\<forall>e \<in> set evs. fst e \<le> fst (snd e)) \<and> now \<le> now2 \<longrightarrow>
     (\<forall>m \<in> set (mouseMovements (mouse_events initial_state (evs @ [(now, now2, event)]))).
        now - m_time m < 2000)
     \<and> (\<forall>i. Suc i < length (mouseMovements (mouse_events initial_state (evs @ [(now, now2, event)]))) \<longrightarrow>
          50 \<le> m_time (mouseMovements (mouse_events initial_state (evs @ [(now, now2, event)])) ! Suc i)
               - m_time (mouseMovements (mouse_events initial_state (evs @ [(now, now2, event)])) ! i))
     \<and> (\<forall>a \<in> set (mouseMovements (mouse_events initial_state (evs @ [(now, now2, event)]))).
         \<forall>b \<in> set (mouseMovements (mouse_events initial_state (evs @ [(now, now2, event)]))).
           m_time b - m_time a < 1000)"
proof (intro impI)
  assume h: "(\<forall>e \<in> set evs. fst e \<le> fst (snd e)) \<and> now \<le> now2"
  let ?s = "mouse_events initial_state evs"
  let ?buf = "mouseMovements (mouse_events initial_state (evs @ [(now, now2, event)]))"
  have init: "mouse_inv (mouseMovements initial_state)"
    by (simp add: mouse_inv_def initial_state_def)
  have before: "mouse_inv (mouseMovements ?s)"
    using init h by (intro mouse_inv_mouse_events) simp_all
  have buf: "?buf = mouseMovements (trackMouseMove ?s now now2 event)"
    by (simp add: mouse_events_append)
  have after: "mouse_inv ?buf"
    unfolding buf using before h by (intro mouse_inv_trackMouseMove) simp_all
  have age: "\<forall>m \<in> set ?buf. now - m_time m < 2000"
    unfolding buf using age_trackMouseMove [OF before] by blast
  have gaps: "\<forall>i. Suc i < length ?buf \<longrightarrow> 50 \<le> m_time (?buf ! Suc i) - m_time (?buf ! i)"
    using after sorted_wrt_consecutive [of "\<lambda>a b. 50 \<le> m_time b - m_time a" ?buf]
    by (simp add: mouse_inv_def)
  have span: "\<forall>a \<in> set ?buf. \<forall>b \<in> set ?buf. m_time b - m_time a < 1000"
    using after by (simp add: mouse_inv_def)
  from age gaps span show "(\<forall>m \<in> set ?buf. now - m_time m < 2000)
     \<and> (\<forall>i. Suc i < length ?buf \<longrightarrow> 50 \<le> m_time (?buf ! Suc i) - m_time (?buf ! i))
     \<and> (\<forall>a \<in> set ?buf. \<forall>b \<in> set ?buf. m_time b - m_time a < 1000)"
    by blast
qed

theorem mouse_buffer_age_and_spacing_witness:
  "mouseMovements (mouse_events initial_state
      ([(0, 0, move_to 0 0), (10, 10, move_to 1 1), (60, 61, move_to 2 2)] @ [(120, 120, move_to 3 3)])) =
     [\<lparr> m_time = 0, m_x = 0, m_y = 0 \<rparr>, \<lparr> m_time = 60, m_x = 2, m_y = 2 \<rparr>,
      \<lparr> m_time = 120, m_x = 3, m_y = 3 \<rparr>]
   \<and> list_all (\<lambda>m. 120 - m_time m < 2000)
       (mouseMovements (mouse_events initial_state
         ([(0, 0, move_to 0 0), (10, 10, move_to 1 1), (60, 61, move_to 2 2)] @ [(120, 120, move_to 3 3)])))
   \<and> list_all (\<lambda>a. list_all (\<lambda>b. m_time b - m_time a < 1000)
         (mouseMovements (mouse_events initial_state
           ([(0, 0, move_to 0 0), (10, 10, move_to 1 1), (60, 61, move_to 2 2)] @ [(120, 120, move_to 3 3)]))))
       (mouseMovements (mouse_events initial_state
         ([(0, 0, move_to 0 0), (10, 10, move_to 1 1), (60, 61, move_to 2 2)] @ [(120, 120, move_to 3 3)])))"
proof -
  have hyp: "(\<forall>e \<in> set [(0::int, 0::int, move_to 0 0), (10, 10, move_to 1 1), (60, 61, move_to 2 2)].
                fst e \<le> fst (snd e)) \<and> (120::int) \<le> 120"
    by simp
  have buf: "mouseMovements (mouse_events initial_state
      ([(0, 0, move_to 0 0), (10, 10, move_to 1 1), (60, 61, move_to 2 2)] @ [(120, 120, move_to 3 3)])) =
     [\<lparr> m_time = 0, m_x = 0, m_y = 0 \<rparr>, \<lparr> m_time = 60, m_x = 2, m_y = 2 \<rparr>,
      \<lparr> m_time = 120, m_x = 3, m_y = 3 \<rparr>]"
    by (simp add: trackMouseMove_def detectMouseThrashing_def initial_state_def move_to_def Let_def)
  note inst = mouse_buffer_age_and_spacing
      [where evs = "[(0, 0, move_to 0 0), (10, 10, move_to 1 1), (60, 61, move_to 2 2)]"
         and now = 120 and ?now2.0 = 120 and event = "move_to 3 3"]
  have age: "list_all (\<lambda>m. 120 - m_time m < 2000)
       (mouseMovements (mouse_events initial_state
         ([(0, 0, move_to 0 0), (10, 10, move_to 1 1), (60, 61, move_to 2 2)] @ [(120, 120, move_to 3 3)])))"
    unfolding list_all_iff using inst hyp by blast
  have span: "list_all (\<lambda>a. list_all (\<lambda>b. m_time b - m_time a < 1000)
         (mouseMovements (mouse_events initial_state
           ([(0, 0, move_to 0 0), (10, 10, move_to 1 1), (60, 61, move_to 2 2)] @ [(120, 120, move_to 3 3)]))))
       (mouseMovements (mouse_events initial_state
         ([(0, 0, move_to 0 0), (10, 10, move_to 1 1), (60, 61, move_to 2 2)] @ [(120, 120, move_to 3 3)])))"
    unfolding list_all_iff using inst hyp by blast
  show ?thesis using buf age span by blast
qed

text \<open>
  C6 as stated fails: a sample taken at time 0 is gone after the next sample, taken at time
  1500, although it is then 1500 ms old, inside the 2000 ms window.
\<close>

theorem mouse_buffer_eviction_counterexample:
  "\<lparr> m_time = 0, m_x = 0, m_y = 0 \<rparr> \<in> set (mouseMovements (mouse_events initial_state [(0, 0, move_to 0 0)]))
   \<and> (1500::int) - 0 < 2000
   \<and> mouseMovements (mouse_events initial_state [(0, 0, move_to 0 0), (1500, 1500, move_to 9 9)]) =
       [\<lparr> m_time = 1500, m_x = 9, m_y = 9 \<rparr>]"
  by (simp add: trackMouseMove_def detectMouseThrashing_def initial_state_def move_to_def Let_def)

subsection \<open>Session id\<close>

text \<open>
  C8. The session-id operation returns the stored id and refreshes \<open>lastActivity\<close> exactly
  when a session record is stored and the clock is less than 30 minutes (1800000 ms) past
  its \<open>lastActivity\<close>; otherwise it returns a newly generated id and stores it. So a
  reload (a second call on the storage the first call left) returns the same id when it
  comes less than 30 minutes after the first call's write, and the newly generated id when
  it comes 30 minutes or more after it.
\<close>

theorem session_id_stable_within_30_minutes:
  "getOrCreateSessionId stored t1 t2 fresh =
     (if \<exists>sid la. stored = Some (SessionData sid la) \<and> t1 - la < 1800000
      then (case stored of Some (SessionData sid la) \<Rightarrow> (sid, Some (SessionData sid t2)))
      else (fresh, Some (SessionData fresh t2)))
   \<and> fst (getOrCreateSessionId (snd (getOrCreateSessionId stored t1 t2 fresh)) t3 t4 fresh') =
     (if t3 - t2 < 1800000 then fst (getOrCreateSessionId stored t1 t2 fresh) else fresh')
   \<and> snd (getOrCreateSessionId (snd (getOrCreateSessionId stored t1 t2 fresh)) t3 t4 fresh') =
     Some (SessionData
       (if t3 - t2 < 1800000 then fst (getOrCreateSessionId stored t1 t2 fresh) else fresh') t4)"
  by (auto simp: getOrCreateSessionId_def split: option.splits stored_session.splits)

theorem session_id_stable_within_30_minutes_witness:
  "getOrCreateSessionId (Some (SessionData ''abc'' 1000)) 1800999 1801000 ''new'' =
     (''abc'', Some (SessionData ''abc'' 1801000))
   \<and> getOrCreateSessionId (Some (SessionData ''abc'' 1000)) 1801000 1801001 ''new'' =
     (''new'', Some (SessionData ''new'' 1801001))
   \<and> getOrCreateSessionId None 5 6 ''new'' = (''new'', Some (SessionData ''new'' 6))
   \<and> getOrCreateSessionId (Some Unparsable) 5 6 ''new'' = (''new'', Some (SessionData ''new'' 6))"
  using session_id_stable_within_30_minutes [of "Some (SessionData ''abc'' 1000)" 1800999 1801000 "''new''"]
    session_id_stable_within_30_minutes [of "Some (SessionData ''abc'' 1000)" 1801000 1801001 "''new''"]
    session_id_stable_within_30_minutes [of None 5 6 "''new''"]
    session_id_stable_within_30_minutes [of "Some Unparsable" 5 6 "''new''"]
  by simp

end
